theory Spec2Isabelle
  imports Complex_Main
begin

section \<open>The segmentation and subtitle engine of \<open>services/video_processor.py\<close>\<close>

text \<open>
  The theory embeds the pure core of the class \<open>VideoProcessor\<close>: the time formatter
  \<open>format_srt_time\<close>, the text segmenter (\<open>split_into_sentences\<close>,
  \<open>create_multi_line_subtitle\<close>), the start-point generator
  (\<open>generate_varied_start_points\<close> and its strategies), the clip planner
  (\<open>create_cuts\<close>) and the subtitle synchroniser (\<open>create_subtitles\<close>,
  \<open>get_cut_start_time\<close>, \<open>transcribe_segment\<close>).

  Modelling conventions.
  \<^item> A Python number is a \<^typ>\<open>real\<close>. The arithmetic of floats rounds: \<open>x + y\<close>,
    \<open>x - y\<close>, \<open>x * y\<close> and \<open>x / y\<close> are \<open>fadd\<close>, \<open>fsub\<close>, \<open>fmul\<close> and \<open>fdiv\<close>, the exact
    result rounded to binary64 (nearest, ties to even), and a decimal literal such as
    \<open>0.3\<close> is \<open>round_binary64 (3 / 10)\<close>. Comparisons, \<open>min\<close>, \<open>max\<close>, \<open>abs\<close> and negation are
    exact. The exponent range is not bounded: overflow, subnormal numbers and the sign of
    zero are not modelled. On Python ints below \<open>2^53\<close> the rounded operations \<open>+\<close>,
    \<open>-\<close>, \<open>*\<close> are exact, so an int that takes the place of a float (the target length
    of a clip, the fallback duration 300) is not told apart from the float of the same
    value.
  \<^item> Python ints are \<^typ>\<open>int\<close>; \<open>range(n)\<close> is \<open>[0..<nat n]\<close>, empty for \<open>n \<le> 0\<close>.
  \<^item> A Python \<open>str\<close> is a \<^typ>\<open>string\<close> in which a \<^typ>\<open>char\<close> stands for one code
    point below 256; the Portuguese literals of the source fit (Latin-1 letters).
  \<^item> The module \<open>random\<close>, the prober and the media collaborators are parameters.
  \<^item> An exception is a value \<open>Inl e\<close> of a sum type; a loop that need not end is a
    \<open>partial_function\<close> in the option monad.
\<close>

subsection \<open>Binary64 arithmetic\<close>

text \<open>
  The binary exponent of a positive number \<open>x\<close> is the integer \<open>e\<close> with
  \<open>2^e \<le> x < 2^(e + 1)\<close>; it is found by doubling or halving.
\<close>

function binary_exponent :: "real \<Rightarrow> int" where
  "binary_exponent x =
     (if x \<le> 0 then 0
      else if x < 1 then binary_exponent (2 * x) - 1
      else if 2 \<le> x then binary_exponent (x / 2) + 1
      else 0)"
  by pat_completeness auto
termination
proof (relation "measure (\<lambda>x. if 1 \<le> x then nat \<lfloor>x\<rfloor> else nat \<lceil>1 / x\<rceil>)")
  show "wf (measure (\<lambda>x::real. if 1 \<le> x then nat \<lfloor>x\<rfloor> else nat \<lceil>1 / x\<rceil>))" by simp
next
  fix x :: real
  assume a: "\<not> x \<le> 0" "x < 1"
  have inv: "1 < 1 / x" using a by simp
  show "(2 * x, x) \<in> measure (\<lambda>x. if 1 \<le> x then nat \<lfloor>x\<rfloor> else nat \<lceil>1 / x\<rceil>)"
  proof (cases "1 \<le> 2 * x")
    case True
    then have "\<lfloor>2 * x\<rfloor> = 1" using a by (simp add: floor_eq_iff)
    moreover have "2 \<le> \<lceil>1 / x\<rceil>" using inv by (simp add: le_ceiling_iff)
    ultimately show ?thesis using a True by simp
  next
    case False
    then have h: "2 < 1 / x" using a by (simp add: field_simps)
    have "1 / (2 * x) = (1 / x) / 2" by simp
    also have "\<dots> \<le> of_int \<lceil>1 / x\<rceil> / 2" by (simp add: divide_right_mono)
    finally have "\<lceil>1 / (2 * x)\<rceil> \<le> \<lceil>(of_int \<lceil>1 / x\<rceil> :: real) / 2\<rceil>" by (rule ceiling_mono)
    also have "\<dots> \<le> (\<lceil>1 / x\<rceil> + 1) div 2"
    proof -
      have "(of_int \<lceil>1 / x\<rceil> :: real) / 2 \<le> of_int ((\<lceil>1 / x\<rceil> + 1) div 2)"
        by (simp add: field_simps)
      then show ?thesis by (simp add: ceiling_le_iff)
    qed
    also have "\<dots> < \<lceil>1 / x\<rceil>"
    proof -
      have "3 \<le> \<lceil>1 / x\<rceil>" using h by (simp add: le_ceiling_iff)
      then show ?thesis by linarith
    qed
    finally have "\<lceil>1 / (2 * x)\<rceil> < \<lceil>1 / x\<rceil>" .
    moreover have "0 < \<lceil>1 / x\<rceil>" using inv a by (simp add: less_ceiling_iff)
    ultimately show ?thesis using a False by simp
  qed
next
  fix x :: real
  assume a: "\<not> x \<le> 0" "\<not> x < 1" "2 \<le> x"
  have "\<lfloor>x / 2\<rfloor> < \<lfloor>x\<rfloor>"
  proof -
    have "x / 2 < of_int \<lfloor>x\<rfloor>"
    proof -
      have "x < of_int \<lfloor>x\<rfloor> + 1" by linarith
      moreover have "2 \<le> \<lfloor>x\<rfloor>" using a by (simp add: le_floor_iff)
      then have "(2::real) \<le> of_int \<lfloor>x\<rfloor>" by linarith
      ultimately show ?thesis by linarith
    qed
    then show ?thesis by (simp add: floor_less_iff)
  qed
  moreover have "0 < \<lfloor>x\<rfloor>" using a by (simp add: less_floor_iff)
  ultimately show "(x / 2, x) \<in> measure (\<lambda>x. if 1 \<le> x then nat \<lfloor>x\<rfloor> else nat \<lceil>1 / x\<rceil>)"
    using a by (cases "1 \<le> x / 2") simp_all
qed

declare binary_exponent.simps [simp del]

definition pow2 :: "int \<Rightarrow> real" where
  "pow2 e = (if 0 \<le> e then 2 ^ nat e else 1 / 2 ^ nat (- e))"

text \<open>Rounding to the nearest integer, a tie to the even one.\<close>

definition round_half_even :: "real \<Rightarrow> int" where
  "round_half_even m =
     (let f = \<lfloor>m\<rfloor>; d = m - of_int f
      in if d < 1 / 2 then f else if 1 / 2 < d then f + 1 else if even f then f else f + 1)"

text \<open>
  Rounding to binary64: a number with binary exponent \<open>e\<close> is rounded to the nearest
  multiple of \<open>2^(e - 52)\<close>, so that the significand has 53 bits.
\<close>

definition round_binary64 :: "real \<Rightarrow> real" where
  "round_binary64 x =
     (if x = 0 then 0
      else let u = pow2 (binary_exponent \<bar>x\<bar> - 52)
           in sgn x * (of_int (round_half_even (\<bar>x\<bar> / u)) * u))"

definition fadd :: "real \<Rightarrow> real \<Rightarrow> real" where
  "fadd x y = round_binary64 (x + y)"

definition fsub :: "real \<Rightarrow> real \<Rightarrow> real" where
  "fsub x y = round_binary64 (x - y)"

definition fmul :: "real \<Rightarrow> real \<Rightarrow> real" where
  "fmul x y = round_binary64 (x * y)"

definition fdiv :: "real \<Rightarrow> real \<Rightarrow> real" where
  "fdiv x y = round_binary64 (x / y)"

text \<open>The binary64 numbers are the fixed points of the rounding.\<close>

definition is_binary64 :: "real \<Rightarrow> bool" where
  "is_binary64 x \<longleftrightarrow> round_binary64 x = x"

subsection \<open>Python arithmetic and number formatting\<close>

datatype error = ZeroDivisionError | IndexError | UnboundLocalError | ProbeError

text \<open>\<open>int(x)\<close> truncates toward zero.\<close>

definition py_int :: "real \<Rightarrow> int" where
  "py_int x = (if 0 \<le> x then \<lfloor>x\<rfloor> else \<lceil>x\<rceil>)"

text \<open>
  \<open>x % m\<close> and \<open>x // m\<close> on floats, for a modulus \<open>m \<noteq> 0\<close>, as CPython computes them
  (\<open>float_rem\<close> and \<open>_float_div_mod\<close> in \<open>Objects/floatobject.c\<close>). The C function
  \<open>fmod\<close> is exact: its result is \<open>x - m * trunc(x / m)\<close>.
  \<^verbatim>\<open>
  mod = fmod(vx, wx);
  div = (vx - mod) / wx;
  if (mod) {
      if ((wx < 0) != (mod < 0)) { mod += wx; div -= 1.0; }
  }
  if (div) {
      floordiv = floor(div);
      if (div - floordiv > 0.5) floordiv += 1.0;
  }
  else floordiv = 0;
  \<close>
\<close>

definition fmod :: "real \<Rightarrow> real \<Rightarrow> real" where
  "fmod x m = x - m * of_int (py_int (x / m))"

definition py_mod :: "real \<Rightarrow> real \<Rightarrow> real" where
  "py_mod x m =
     (let r = fmod x m
      in if r \<noteq> 0 \<and> (m < 0) \<noteq> (r < 0) then fadd r m else r)"

definition py_floordiv :: "real \<Rightarrow> real \<Rightarrow> real" where
  "py_floordiv x m =
     (let r = fmod x m;
          d0 = fdiv (fsub x r) m;
          d = (if r \<noteq> 0 \<and> (m < 0) \<noteq> (r < 0) then fsub d0 1 else d0)
      in if d \<noteq> 0
         then (let f = of_int \<lfloor>d\<rfloor> in if fsub d f > 1 / 2 then fadd f 1 else f)
         else 0)"

text \<open>Decimal digits of a natural number, and the format specs \<open>d\<close>, \<open>02d\<close>, \<open>03d\<close>:
  zero padding to the width, the sign counted in the width and written first.\<close>

fun digits :: "nat \<Rightarrow> string" where
  "digits n = (if n < 10 then [''0123456789'' ! n]
               else digits (n div 10) @ [''0123456789'' ! (n mod 10)])"

definition format_0d :: "nat \<Rightarrow> int \<Rightarrow> string" where
  "format_0d w n =
     (if n < 0
      then (let ds = digits (nat (- n)) in CHR ''-'' # replicate (w - 1 - length ds) CHR ''0'' @ ds)
      else (let ds = digits (nat n) in replicate (w - length ds) CHR ''0'' @ ds))"

definition str_int :: "int \<Rightarrow> string" where
  "str_int n = format_0d 0 n"

subsection \<open>Time formatter\<close>

text \<open>
  \<^verbatim>\<open>
  def format_srt_time(self, seconds):
      hours = int(seconds // 3600)
      minutes = int((seconds % 3600) // 60)
      secs = int(seconds % 60)
      millisecs = int((seconds % 1) * 1000)
      return f"{hours:02d}:{minutes:02d}:{secs:02d},{millisecs:03d}"
  \<close>
\<close>

definition format_srt_time :: "real \<Rightarrow> string" where
  "format_srt_time seconds =
     (let hours = py_int (py_floordiv seconds 3600);
          minutes = py_int (py_floordiv (py_mod seconds 3600) 60);
          secs = py_int (py_mod seconds 60);
          millisecs = py_int (fmul (py_mod seconds 1) 1000)
      in format_0d 2 hours @ '':'' @ format_0d 2 minutes @ '':'' @ format_0d 2 secs @
         '','' @ format_0d 3 millisecs)"

text \<open>The Python literal \<open>3661.234\<close>: the binary64 number nearest to the decimal.\<close>

definition binary64_3661_234 :: real where
  "binary64_3661_234 = round_binary64 (3661234 / 1000)"

subsection \<open>Python strings\<close>

text \<open>The characters \<open>str.strip()\<close> and \<open>str.split()\<close> treat as whitespace, among the
  code points below 256: tab, line feed, vertical tab, form feed, carriage return, the
  separators \<open>0x1C\<close> to \<open>0x1F\<close>, space, \<open>0x85\<close> and the no-break space \<open>0xA0\<close>.\<close>

definition is_space :: "char \<Rightarrow> bool" where
  "is_space c = (c \<in> set [CHR 0x09, CHR 0x0A, CHR 0x0B, CHR 0x0C, CHR 0x0D, CHR 0x1C, CHR 0x1D,
                           CHR 0x1E, CHR 0x1F, CHR 0x20, CHR 0x85, CHR 0xA0])"

definition strip :: "string \<Rightarrow> string" where
  "strip s = rev (dropWhile is_space (rev (dropWhile is_space s)))"

text \<open>\<open>s.split()\<close>: the maximal runs of characters that are not whitespace.\<close>

fun split_acc :: "string \<Rightarrow> string \<Rightarrow> string list" where
  "split_acc cur [] = (if cur = [] then [] else [cur])"
| "split_acc cur (c # cs) =
     (if is_space c then (if cur = [] then split_acc [] cs else cur # split_acc [] cs)
      else split_acc (cur @ [c]) cs)"

definition split :: "string \<Rightarrow> string list" where
  "split s = split_acc [] s"



text \<open>\<open>sep.join(xs)\<close>.\<close>

fun join :: "string \<Rightarrow> string list \<Rightarrow> string" where
  "join sep [] = []"
| "join sep [x] = x"
| "join sep (x # y # ys) = x @ sep @ join sep (y # ys)"


text \<open>\<open>.replace('"', '').replace("'", '').replace('\\', '')\<close>: the double quote, the
  single quote and the backslash are deleted.\<close>

definition remove_quotes :: "string \<Rightarrow> string" where
  "remove_quotes s =
     filter (\<lambda>c. c \<noteq> CHR 0x5C) (filter (\<lambda>c. c \<noteq> CHR 0x27) (filter (\<lambda>c. c \<noteq> CHR 0x22) s))"

text \<open>The line-break marker of the subtitle text: the two characters backslash and
  \<open>N\<close> (the source writes \<open>"\\N"\<close>); and the newline character.\<close>

definition line_break :: string where
  "line_break = [CHR 0x5C, CHR ''N'']"

definition newline :: string where
  "newline = [CHR 0x0A]"

subsection \<open>Text segmenter\<close>

text \<open>
  \<open>create_multi_line_subtitle(words)\<close>. The re-flow loop of the three-line branch keeps
  \<open>lines\<close>, \<open>current_line\<close> and \<open>current_length\<close>:
  \<^verbatim>\<open>
  for word in all_words:
      if current_length + len(word) + 1 <= max_chars and len(lines) < 2:
          current_line.append(word)
          current_length += len(word) + 1
      else:
          if current_line:
              lines.append(" ".join(current_line))
          current_line = [word]
          current_length = len(word)
  if current_line:
      lines.append(" ".join(current_line))
  while len(lines) > 3:
      if len(lines) >= 2:
          lines[-2] = lines[-2] + " " + lines[-1]
          lines.pop()
  \<close>
\<close>

definition max_chars :: nat where
  "max_chars = 25"

fun reflow_loop :: "string list \<Rightarrow> string list \<Rightarrow> string list \<Rightarrow> nat \<Rightarrow> string list \<times> string list" where
  "reflow_loop [] lines current_line current_length = (lines, current_line)"
| "reflow_loop (word # ws) lines current_line current_length =
     (if current_length + length word + 1 \<le> max_chars \<and> length lines < 2
      then reflow_loop ws lines (current_line @ [word]) (current_length + length word + 1)
      else reflow_loop ws
             (if current_line \<noteq> [] then lines @ [join '' '' current_line] else lines)
             [word] (length word))"

definition reflow :: "string list \<Rightarrow> string list" where
  "reflow all_words =
     (case reflow_loop all_words [] [] 0 of
        (lines, current_line) \<Rightarrow>
          if current_line \<noteq> [] then lines @ [join '' '' current_line] else lines)"

function merge_last_lines :: "string list \<Rightarrow> string list" where
  "merge_last_lines lines =
     (if length lines > 3
      then merge_last_lines
             (butlast (butlast lines) @ [last (butlast lines) @ '' '' @ last lines])
      else lines)"
  by pat_completeness auto
termination
  by (relation "measure length") auto

definition placeholder_subtitle :: string where
  "placeholder_subtitle =
     ''Transcri'' @ [CHR 0xE7, CHR 0xE3] @ ''o'' @ line_break @ ''autom'' @ [CHR 0xE1] @ ''tica''"

definition create_multi_line_subtitle :: "string list \<Rightarrow> string" where
  "create_multi_line_subtitle words =
     (if words = [] then placeholder_subtitle
      else let text = join '' '' words in
        if length text \<le> 20 then text
        else if length text \<le> 40 then
          (let mid_point = length words div 2;
               line1 = join '' '' (take mid_point words);
               line2 = join '' '' (drop mid_point words)
           in line1 @ line_break @ line2)
        else
          (let total_words = length words;
               part1_end = total_words div 3;
               part2_end = (total_words * 2) div 3;
               line1_words = take part1_end words;
               line2_words = take (part2_end - part1_end) (drop part1_end words);
               line3_words = drop part2_end words;
               line1 = join '' '' line1_words;
               line2 = join '' '' line2_words;
               line3 = join '' '' line3_words
           in if length line1 > max_chars \<or> length line2 > max_chars \<or> length line3 > max_chars
              then join line_break (merge_last_lines (reflow (line1_words @ line2_words @ line3_words)))
              else line1 @ line_break @ line2 @ line_break @ line3))"

subsection \<open>The pseudo-random generator\<close>

text \<open>
  Python's module \<open>random\<close> is a parameter: a state type \<open>'g\<close> with \<open>random.seed(n)\<close>,
  \<open>random.random()\<close> (a float in \<open>[0, 1)\<close> and the next state) and the integer draw
  \<open>_randbelow(n)\<close> behind \<open>random.choice\<close>. \<open>rng_ok\<close> is the library's contract.
\<close>

record 'g random_ops =
  rng_seed :: "int \<Rightarrow> 'g"
  rng_random :: "'g \<Rightarrow> real \<times> 'g"
  rng_randbelow :: "nat \<Rightarrow> 'g \<Rightarrow> nat \<times> 'g"

definition rng_ok :: "'g random_ops \<Rightarrow> bool" where
  "rng_ok ops \<longleftrightarrow>
     (\<forall>g. 0 \<le> fst (rng_random ops g) \<and> fst (rng_random ops g) < 1) \<and>
     (\<forall>n g. 0 < n \<longrightarrow> fst (rng_randbelow ops n g) < n)"

text \<open>\<open>random.uniform(a, b)\<close> is \<open>a + (b - a) * random()\<close>, in floats;
  \<open>random.choice(seq)\<close> is \<open>seq[_randbelow(len(seq))]\<close>.\<close>

definition uniform :: "'g random_ops \<Rightarrow> real \<Rightarrow> real \<Rightarrow> 'g \<Rightarrow> real \<times> 'g" where
  "uniform ops a b g = (case rng_random ops g of (u, g') \<Rightarrow> (fadd a (fmul (fsub b a) u), g'))"

definition choice :: "'g random_ops \<Rightarrow> 'a list \<Rightarrow> 'g \<Rightarrow> (error + 'a) \<times> 'g" where
  "choice ops xs g =
     (case rng_randbelow ops (length xs) g of
        (k, g') \<Rightarrow> (if k < length xs then Inr (xs ! k) else Inl IndexError, g'))"

text \<open>A generator for running examples: every draw of \<open>random()\<close> is the same number
  \<open>u\<close>, the state counts the draws.\<close>

definition const_ops :: "real \<Rightarrow> nat random_ops" where
  "const_ops u =
     \<lparr>rng_seed = (\<lambda>n. 0),
      rng_random = (\<lambda>g. (u, Suc g)),
      rng_randbelow = (\<lambda>n g. (nat \<lfloor>u * real n\<rfloor>, Suc g))\<rparr>"

text \<open>A second generator for running examples, whose draws depend on the seed: a linear
  congruential generator modulo \<open>2^31\<close>; the state is the last number drawn, \<open>random()\<close>
  is the next number divided by \<open>2^31\<close>.\<close>

definition lcg_next :: "int \<Rightarrow> int" where
  "lcg_next g = (1103515245 * g + 12345) mod 2 ^ 31"

definition lcg_ops :: "int random_ops" where
  "lcg_ops =
     \<lparr>rng_seed = (\<lambda>n. n mod 2 ^ 31),
      rng_random = (\<lambda>g. (of_int (lcg_next g) / 2 ^ 31, lcg_next g)),
      rng_randbelow = (\<lambda>n g. (nat (lcg_next g mod int n), lcg_next g))\<rparr>"

subsection \<open>Start-point generator\<close>

text \<open>
  The spacing correction that \<open>_simple_variation\<close> and \<open>_advanced_variation\<close> run
  after sorting:
  \<^verbatim>\<open>
  for i in range(1, len(start_points)):
      if start_points[i] - start_points[i-1] < cut_duration:
          start_points[i] = start_points[i-1] + cut_duration
  \<close>
\<close>

fun push_apart :: "real \<Rightarrow> real \<Rightarrow> real list \<Rightarrow> real list" where
  "push_apart cut_duration prev [] = []"
| "push_apart cut_duration prev (p # ps) =
     (let p' = (if fsub p prev < cut_duration then fadd prev cut_duration else p)
      in p' # push_apart cut_duration p' ps)"

definition enforce_spacing :: "real \<Rightarrow> real list \<Rightarrow> real list" where
  "enforce_spacing cut_duration start_points =
     (case start_points of [] \<Rightarrow> [] | p # ps \<Rightarrow> p # push_apart cut_duration p ps)"

text \<open>\<open>_simple_variation\<close>: one point per section, then sort and correct.\<close>

fun simple_points :: "'g random_ops \<Rightarrow> real \<Rightarrow> real \<Rightarrow> real \<Rightarrow> nat list \<Rightarrow> 'g \<Rightarrow> real list \<times> 'g" where
  "simple_points ops available_duration cut_duration section_size [] g = ([], g)"
| "simple_points ops available_duration cut_duration section_size (i # ks) g =
     (let section_start = fmul (real i) section_size;
          section_end = min (fmul (real i + 1) section_size) available_duration;
          (start_point, g1) =
            (if section_end > section_start
             then (case uniform ops 0 (min (fsub section_end section_start)
                                          (fmul cut_duration (1 / 2))) g of
                     (random_offset, g') \<Rightarrow> (fadd section_start random_offset, g'))
             else (section_start, g));
          (rest, g2) = simple_points ops available_duration cut_duration section_size ks g1
      in (max 0 start_point # rest, g2))"

definition simple_variation :: "'g random_ops \<Rightarrow> real \<Rightarrow> real \<Rightarrow> int \<Rightarrow> 'g \<Rightarrow> (error + real list) \<times> 'g" where
  "simple_variation ops available_duration cut_duration num_cuts g =
     (if num_cuts = 0 then (Inl ZeroDivisionError, g)
      else (case simple_points ops available_duration cut_duration
                   (fdiv available_duration (of_int num_cuts)) [0..<nat num_cuts] g of
              (start_points, g') \<Rightarrow> (Inr (enforce_spacing cut_duration (sort start_points)), g')))"

text \<open>\<open>_spread_out_variation\<close>: the midpoint of each section, moved by up to 30 percent
  of the section size and clamped to the section.\<close>

fun spread_out_points :: "'g random_ops \<Rightarrow> real \<Rightarrow> real \<Rightarrow> nat list \<Rightarrow> 'g \<Rightarrow> real list \<times> 'g" where
  "spread_out_points ops available_duration section_size [] g = ([], g)"
| "spread_out_points ops available_duration section_size (i # ks) g =
     (let section_start = fmul (real i) section_size;
          section_end = min (fmul (real i + 1) section_size) available_duration;
          mid_point = fdiv (fadd section_start section_end) 2;
          (variation, g1) = uniform ops (fmul (- section_size) (round_binary64 (3 / 10)))
                              (fmul section_size (round_binary64 (3 / 10))) g;
          start_point = fadd mid_point variation;
          (rest, g2) = spread_out_points ops available_duration section_size ks g1
      in (max section_start (min start_point section_end) # rest, g2))"

definition spread_out_variation :: "'g random_ops \<Rightarrow> real \<Rightarrow> real \<Rightarrow> int \<Rightarrow> 'g \<Rightarrow> (error + real list) \<times> 'g" where
  "spread_out_variation ops available_duration cut_duration num_cuts g =
     (if num_cuts = 0 then (Inl ZeroDivisionError, g)
      else (case spread_out_points ops available_duration
                   (fdiv available_duration (of_int num_cuts)) [0..<nat num_cuts] g of
              (start_points, g') \<Rightarrow> (Inr (sort start_points), g')))"

text \<open>\<open>_linear_random_variation\<close>: multiples of \<open>available_duration / (num_cuts + 1)\<close>,
  each moved by up to 20 percent of that interval and clamped to
  \<open>[0, available_duration]\<close>.\<close>

fun linear_random_points :: "'g random_ops \<Rightarrow> real \<Rightarrow> real \<Rightarrow> nat list \<Rightarrow> 'g \<Rightarrow> real list \<times> 'g" where
  "linear_random_points ops available_duration base_interval [] g = ([], g)"
| "linear_random_points ops available_duration base_interval (i # ks) g =
     (let base_point = fmul (real i + 1) base_interval;
          (u, g1) = uniform ops (- round_binary64 (2 / 10)) (round_binary64 (2 / 10)) g;
          variation = fmul u base_interval;
          start_point = fadd base_point variation;
          (rest, g2) = linear_random_points ops available_duration base_interval ks g1
      in (max 0 (min start_point available_duration) # rest, g2))"

definition linear_random_variation :: "'g random_ops \<Rightarrow> real \<Rightarrow> real \<Rightarrow> int \<Rightarrow> 'g \<Rightarrow> (error + real list) \<times> 'g" where
  "linear_random_variation ops available_duration cut_duration num_cuts g =
     (if num_cuts + 1 = 0 then (Inl ZeroDivisionError, g)
      else (case linear_random_points ops available_duration
                   (fdiv available_duration (of_int (num_cuts + 1))) [0..<nat num_cuts] g of
              (start_points, g') \<Rightarrow> (Inr (sort start_points), g')))"

text \<open>\<open>_exponential_variation\<close> draws nothing:
  \<open>available_duration * (1 - exp(-2 * progress))\<close> with \<open>progress = i / (num_cuts - 1)\<close>.
  \<open>math.exp\<close> is read as the exponential rounded to binary64.\<close>

definition exponential_point :: "real \<Rightarrow> int \<Rightarrow> nat \<Rightarrow> real" where
  "exponential_point available_duration num_cuts i =
     (let progress = (if num_cuts > 1 then fdiv (real i) (of_int (num_cuts - 1)) else 0);
          exponential_factor = round_binary64 (exp (fmul (- 2) progress));
          start_point = fmul available_duration (fsub 1 exponential_factor)
      in max 0 start_point)"

text \<open>\<open>exp\<close> has no code equations; the definition is kept out of the code equations so
  that examples of the other strategies evaluate.\<close>

declare exponential_point_def [code del]

definition exponential_variation :: "'g random_ops \<Rightarrow> real \<Rightarrow> real \<Rightarrow> int \<Rightarrow> 'g \<Rightarrow> (error + real list) \<times> 'g" where
  "exponential_variation ops available_duration cut_duration num_cuts g =
     (Inr (sort (map (exponential_point available_duration num_cuts) [0..<nat num_cuts])), g)"

text \<open>\<open>_clustered_variation\<close>: \<open>min(3, num_cuts // 2)\<close> clusters of equal width, the points
  of a cluster spread evenly over it and moved by up to \<open>0.3 * cut_duration\<close>.
  No clusters (\<open>num_cuts // 2 = 0\<close>) is a division by zero.\<close>

fun cluster_points :: "'g random_ops \<Rightarrow> real \<Rightarrow> real \<Rightarrow> real \<Rightarrow> int \<Rightarrow> nat list \<Rightarrow> 'g \<Rightarrow> real list \<times> 'g" where
  "cluster_points ops cut_duration cluster_start cluster_end cluster_cuts [] g = ([], g)"
| "cluster_points ops cut_duration cluster_start cluster_end cluster_cuts (j # ks) g =
     (let progress = fdiv (real j) (of_int (max 1 (cluster_cuts - 1)));
          (variation, g1) = uniform ops (fmul (- cut_duration) (round_binary64 (3 / 10)))
                              (fmul cut_duration (round_binary64 (3 / 10))) g;
          start_point = fadd (fadd cluster_start (fmul (fsub cluster_end cluster_start) progress))
                          variation;
          (rest, g2) = cluster_points ops cut_duration cluster_start cluster_end cluster_cuts ks g1
      in (max cluster_start (min start_point cluster_end) # rest, g2))"

fun clusters_loop :: "'g random_ops \<Rightarrow> real \<Rightarrow> real \<Rightarrow> int \<Rightarrow> real \<Rightarrow> int \<Rightarrow> nat list \<Rightarrow> real list \<Rightarrow> 'g \<Rightarrow> real list \<times> 'g" where
  "clusters_loop ops available_duration cut_duration num_cuts cluster_size cuts_per_cluster []
     start_points g = (start_points, g)"
| "clusters_loop ops available_duration cut_duration num_cuts cluster_size cuts_per_cluster
     (cluster # cs) start_points g =
     (let cluster_start = fmul (real cluster) cluster_size;
          cluster_end = min (fmul (real cluster + 1) cluster_size) available_duration;
          cluster_cuts = min cuts_per_cluster (num_cuts - int (length start_points));
          (points, g1) = cluster_points ops cut_duration cluster_start cluster_end cluster_cuts
                           [0..<nat cluster_cuts] g
      in clusters_loop ops available_duration cut_duration num_cuts cluster_size cuts_per_cluster
           cs (start_points @ points) g1)"

definition clustered_variation :: "'g random_ops \<Rightarrow> real \<Rightarrow> real \<Rightarrow> int \<Rightarrow> 'g \<Rightarrow> (error + real list) \<times> 'g" where
  "clustered_variation ops available_duration cut_duration num_cuts g =
     (let num_clusters = min 3 (num_cuts div 2)
      in if num_clusters = 0 then (Inl ZeroDivisionError, g)
         else (case clusters_loop ops available_duration cut_duration num_cuts
                      (fdiv available_duration (of_int num_clusters)) (num_cuts div num_clusters)
                      [0..<nat num_clusters] [] g of
                 (start_points, g') \<Rightarrow> (Inr (sort start_points), g')))"

text \<open>\<open>_medium_variation\<close>: the pattern follows from \<open>num_cuts\<close>, drawn at random above 7.\<close>

datatype pattern = LinearRandom | Exponential | Clustered | SpreadOut

definition patterns :: "pattern list" where
  "patterns = [LinearRandom, Exponential, Clustered, SpreadOut]"

definition medium_variation :: "'g random_ops \<Rightarrow> real \<Rightarrow> real \<Rightarrow> int \<Rightarrow> 'g \<Rightarrow> (error + real list) \<times> 'g" where
  "medium_variation ops available_duration cut_duration num_cuts g =
     (case (if num_cuts \<le> 3 then (Inr SpreadOut, g)
            else if num_cuts \<le> 7 then (Inr LinearRandom, g)
            else choice ops patterns g) of
        (Inl e, g1) \<Rightarrow> (Inl e, g1)
      | (Inr LinearRandom, g1) \<Rightarrow> linear_random_variation ops available_duration cut_duration num_cuts g1
      | (Inr Exponential, g1) \<Rightarrow> exponential_variation ops available_duration cut_duration num_cuts g1
      | (Inr Clustered, g1) \<Rightarrow> clustered_variation ops available_duration cut_duration num_cuts g1
      | (Inr SpreadOut, g1) \<Rightarrow> spread_out_variation ops available_duration cut_duration num_cuts g1)"

text \<open>
  \<open>_advanced_variation\<close>: four zones, each filled by \<open>_spread_out_variation\<close> on the
  zone's length and shifted to the zone; then the backfill loop, which draws until a
  point is at least \<open>0.8 * cut_duration\<close> away from every point so far and need not end:
  \<^verbatim>\<open>
  while len(start_points) < num_cuts:
      random_point = random.uniform(0, available_duration)
      too_close = any(abs(random_point - p) < cut_duration * 0.8 for p in start_points)
      if not too_close:
          start_points.append(random_point)
  \<close>
  then sort, the spacing correction, and \<open>start_points[:num_cuts]\<close>.
\<close>

fun zones_loop :: "'g random_ops \<Rightarrow> real \<Rightarrow> real \<Rightarrow> int \<Rightarrow> real \<Rightarrow> int \<Rightarrow> nat list \<Rightarrow> real list \<Rightarrow> 'g \<Rightarrow> (error + real list) \<times> 'g" where
  "zones_loop ops available_duration cut_duration num_cuts zone_duration cuts_per_zone []
     start_points g = (Inr start_points, g)"
| "zones_loop ops available_duration cut_duration num_cuts zone_duration cuts_per_zone
     (zone # zs) start_points g =
     (let zone_start = fmul (real zone) zone_duration;
          zone_end = min (fmul (real zone + 1) zone_duration) available_duration;
          zone_cuts = min cuts_per_zone (num_cuts - int (length start_points))
      in if zone_cuts > 0
         then (case spread_out_variation ops (fsub zone_end zone_start) cut_duration zone_cuts g of
                 (Inl e, g1) \<Rightarrow> (Inl e, g1)
               | (Inr zone_points, g1) \<Rightarrow>
                   zones_loop ops available_duration cut_duration num_cuts zone_duration
                     cuts_per_zone zs (start_points @ map (\<lambda>p. fadd zone_start p) zone_points) g1)
         else zones_loop ops available_duration cut_duration num_cuts zone_duration
                cuts_per_zone zs start_points g)"

partial_function (option) backfill :: "'g random_ops \<Rightarrow> real \<Rightarrow> real \<Rightarrow> int \<Rightarrow> real list \<Rightarrow> 'g \<Rightarrow> (real list \<times> 'g) option" where
  "backfill ops available_duration cut_duration num_cuts start_points g =
     (if int (length start_points) < num_cuts
      then (let r = uniform ops 0 available_duration g;
                random_point = fst r;
                too_close = list_ex (\<lambda>p. \<bar>fsub random_point p\<bar> <
                                             fmul cut_duration (round_binary64 (8 / 10))) start_points
            in if \<not> too_close
               then backfill ops available_duration cut_duration num_cuts
                      (start_points @ [random_point]) (snd r)
               else backfill ops available_duration cut_duration num_cuts start_points (snd r))
      else Some (start_points, g))"

declare backfill.simps [code]

definition advanced_variation :: "'g random_ops \<Rightarrow> real \<Rightarrow> real \<Rightarrow> int \<Rightarrow> 'g \<Rightarrow> ((error + real list) \<times> 'g) option" where
  "advanced_variation ops available_duration cut_duration num_cuts g =
     (case zones_loop ops available_duration cut_duration num_cuts (fdiv available_duration 4)
             (max 1 (num_cuts div 4)) [0..<4] [] g of
        (Inl e, g1) \<Rightarrow> Some (Inl e, g1)
      | (Inr zone_points, g1) \<Rightarrow>
          (case backfill ops available_duration cut_duration num_cuts zone_points g1 of
             None \<Rightarrow> None
           | Some (start_points, g2) \<Rightarrow>
               Some (Inr (take (nat num_cuts) (enforce_spacing cut_duration (sort start_points))), g2)))"

text \<open>
  \<^verbatim>\<open>
  def generate_varied_start_points(self, total_duration, cut_duration, num_cuts):
      if total_duration <= cut_duration * 2:
          return [0] if num_cuts == 1 else [0, total_duration - cut_duration]
      available_duration = total_duration - cut_duration
      if available_duration <= 0:
          return [0]
      random.seed(self.processing_count + 42)
      if total_duration <= 300:
          return self._simple_variation(available_duration, cut_duration, num_cuts)
      elif total_duration <= 1800:
          return self._medium_variation(available_duration, cut_duration, num_cuts)
      else:
          return self._advanced_variation(available_duration, cut_duration, num_cuts)
  \<close>
  The state \<open>g\<close> is that of the global generator when the method is called; the result
  is \<open>None\<close> when the method does not return.
\<close>

definition generate_varied_start_points :: "'g random_ops \<Rightarrow> int \<Rightarrow> 'g \<Rightarrow> real \<Rightarrow> real \<Rightarrow> int \<Rightarrow> ((error + real list) \<times> 'g) option" where
  "generate_varied_start_points ops processing_count g total_duration cut_duration num_cuts =
     (if total_duration \<le> fmul cut_duration 2
      then Some (Inr (if num_cuts = 1 then [0] else [0, fsub total_duration cut_duration]), g)
      else let available_duration = fsub total_duration cut_duration
           in if available_duration \<le> 0 then Some (Inr [0], g)
              else let g0 = rng_seed ops (processing_count + 42)
                   in if total_duration \<le> 300
                      then Some (simple_variation ops available_duration cut_duration num_cuts g0)
                      else if total_duration \<le> 1800
                      then Some (medium_variation ops available_duration cut_duration num_cuts g0)
                      else advanced_variation ops available_duration cut_duration num_cuts g0)"

text \<open>Consecutive points at least \<open>d\<close> apart.\<close>

fun spaced :: "real \<Rightarrow> real list \<Rightarrow> bool" where
  "spaced d (x # y # ys) = (d \<le> y - x \<and> spaced d (y # ys))"
| "spaced d ys = True"

text \<open>What the spacing correction leaves between consecutive points: the difference the
  program computes is not below \<open>d\<close>, or the point is the sum the program computes of
  its predecessor and \<open>d\<close>.\<close>

fun corrected :: "real \<Rightarrow> real list \<Rightarrow> bool" where
  "corrected d (x # y # ys) = ((d \<le> fsub y x \<or> y = fadd x d) \<and> corrected d (y # ys))"
| "corrected d ys = True"

subsection \<open>Clip planner\<close>

text \<open>
  The clip count, as \<open>create_cuts\<close> computes it from the probed duration and the target
  length (\<open>total_duration // duration\<close> divides by zero for \<open>duration = 0\<close>):
  \<^verbatim>\<open>
  if total_duration <= 5:
      num_cuts = 1
  elif total_duration <= duration:
      num_cuts = 1
  elif total_duration <= duration * 3:
      num_cuts = 3
  elif total_duration <= duration * 5:
      num_cuts = 5
  elif total_duration <= duration * 10:
      num_cuts = 10
  else:
      num_cuts = min(20, int(total_duration // duration))
  \<close>
\<close>

definition choose_num_cuts :: "real \<Rightarrow> real \<Rightarrow> error + int" where
  "choose_num_cuts total_duration duration =
     (if total_duration \<le> 5 then Inr 1
      else if total_duration \<le> duration then Inr 1
      else if total_duration \<le> fmul duration 3 then Inr 3
      else if total_duration \<le> fmul duration 5 then Inr 5
      else if total_duration \<le> fmul duration 10 then Inr 10
      else if duration = 0 then Inl ZeroDivisionError
      else Inr (min 20 (py_int (py_floordiv total_duration duration))))"

text \<open>The planning fields of the dict \<open>create_cuts\<close> appends for a clip: \<open>id\<close>,
  \<open>start_time\<close>, \<open>end_time\<close> and \<open>duration\<close>.\<close>

record clip =
  clip_id :: int
  clip_start_time :: real
  clip_end_time :: real
  clip_duration :: real

text \<open>
  The loop of \<open>create_cuts\<close> over \<open>range(num_cuts)\<close>. \<open>start_points[i]\<close> past the end
  of the list raises \<open>IndexError\<close>, which the loop's \<open>except\<close> turns into \<open>continue\<close>;
  so does a failure of a media collaborator (cutting, transcription, subtitles, final
  video), here \<open>\<not> media_ok cut_id\<close>. The start time is stored in
  \<open>self._cut_start_times\<close> before the length check.
\<close>

fun cuts_loop :: "(int \<Rightarrow> bool) \<Rightarrow> real \<Rightarrow> real \<Rightarrow> real list \<Rightarrow> nat list \<Rightarrow> (int \<rightharpoonup> real) \<Rightarrow> clip list \<Rightarrow> clip list \<times> (int \<rightharpoonup> real)" where
  "cuts_loop media_ok total_duration duration start_points [] store cuts = (cuts, store)"
| "cuts_loop media_ok total_duration duration start_points (i # ks) store cuts =
     (let cut_id = int i + 1
      in if i < length start_points
         then (let start_time = start_points ! i;
                   end_time = min (fadd start_time duration) total_duration;
                   store' = store(cut_id \<mapsto> start_time)
               in if fsub end_time start_time < 1
                  then cuts_loop media_ok total_duration duration start_points ks store' cuts
                  else if media_ok cut_id
                  then cuts_loop media_ok total_duration duration start_points ks store'
                         (cuts @ [\<lparr>clip_id = cut_id, clip_start_time = start_time,
                                   clip_end_time = end_time,
                                   clip_duration = fsub end_time start_time\<rparr>])
                  else cuts_loop media_ok total_duration duration start_points ks store' cuts)
         else cuts_loop media_ok total_duration duration start_points ks store cuts)"

text \<open>\<open>create_cuts\<close>: \<open>total_duration\<close> is the probed duration
  (\<open>video_info.get('duration', 300)\<close>), \<open>g\<close> the state of the generator and \<open>store\<close> the
  attribute \<open>_cut_start_times\<close> (\<open>None\<close> before it is first set). Errors of the count and
  of the start-point generator are raised outside the loop's \<open>try\<close>.\<close>

definition create_cuts :: "'g random_ops \<Rightarrow> int \<Rightarrow> (int \<Rightarrow> bool) \<Rightarrow> real \<Rightarrow> 'g \<Rightarrow> (int \<rightharpoonup> real) option \<Rightarrow> real \<Rightarrow> ((error + clip list) \<times> 'g \<times> (int \<rightharpoonup> real) option) option" where
  "create_cuts ops processing_count media_ok total_duration g store duration =
     (case choose_num_cuts total_duration duration of
        Inl e \<Rightarrow> Some (Inl e, g, store)
      | Inr num_cuts \<Rightarrow>
          (case generate_varied_start_points ops processing_count g total_duration duration num_cuts of
             None \<Rightarrow> None
           | Some (Inl e, g') \<Rightarrow> Some (Inl e, g', store)
           | Some (Inr start_points, g') \<Rightarrow>
               (case cuts_loop media_ok total_duration duration start_points [0..<nat num_cuts]
                       (case store of None \<Rightarrow> Map.empty | Some m \<Rightarrow> m) [] of
                  (cuts, store') \<Rightarrow> Some (Inr cuts, g', Some store'))))"

text \<open>The clip of a start point, as the specification words it: the position \<open>i\<close> (from
  0) gives the id \<open>i + 1\<close>, the end is \<open>min(start + targetLength, totalDuration)\<close>, the
  effective length is the end minus the start (sum and difference of floats).\<close>

definition clip_at :: "real \<Rightarrow> real \<Rightarrow> nat \<Rightarrow> real \<Rightarrow> clip" where
  "clip_at total_duration duration i start_time =
     \<lparr>clip_id = int i + 1, clip_start_time = start_time,
      clip_end_time = min (fadd start_time duration) total_duration,
      clip_duration = fsub (min (fadd start_time duration) total_duration) start_time\<rparr>"

subsection \<open>Stored clip start times\<close>

text \<open>
  \<open>get_cut_start_time(cut_id)\<close>. The call \<open>self.get_video_info()\<close> is given by its
  outcome: \<open>Inl e\<close> when it raises, else the entry \<open>'duration'\<close> of the dict it returns
  (\<open>None\<close> when absent, read as 300). The whole body is in a \<open>try\<close> whose handler
  returns 0.
  \<^verbatim>\<open>
  if not hasattr(self, '_cut_start_times'):
      self._cut_start_times = {}
  if cut_id in self._cut_start_times:
      return self._cut_start_times[cut_id]
  video_info = self.get_video_info()
  total_duration = video_info.get('duration', 300)
  cut_duration = 30
  available_duration = total_duration - cut_duration
  if available_duration <= 0:
      return 0
  start_time = (cut_id - 1) * cut_duration
  start_time = min(start_time, available_duration)
  self._cut_start_times[cut_id] = start_time
  return start_time
  \<close>
\<close>

definition get_cut_start_time :: "(error + real option) \<Rightarrow> (int \<rightharpoonup> real) option \<Rightarrow> int \<Rightarrow> real \<times> (int \<rightharpoonup> real) option" where
  "get_cut_start_time video_info store cut_id =
     (let stored = (case store of None \<Rightarrow> Map.empty | Some m \<Rightarrow> m)
      in case stored cut_id of
           Some start_time \<Rightarrow> (start_time, Some stored)
         | None \<Rightarrow>
             (case video_info of
                Inl e \<Rightarrow> (0, Some stored)
              | Inr info \<Rightarrow>
                  (let total_duration = (case info of None \<Rightarrow> 300 | Some d \<Rightarrow> d);
                       cut_duration = 30;
                       available_duration = total_duration - cut_duration
                   in if available_duration \<le> 0 then (0, Some stored)
                      else (let start_time = min (of_int (cut_id - 1) * cut_duration) available_duration
                            in (start_time, Some (stored(cut_id \<mapsto> start_time)))))))"

text \<open>The repository's \<open>get_video_info\<close> catches every exception of the prober and then
  returns \<open>{'duration': 300}\<close>: it never raises and always has the entry.\<close>

definition get_video_info :: "(error + real) \<Rightarrow> error + real option" where
  "get_video_info probe = (case probe of Inl e \<Rightarrow> Inr (Some 300) | Inr d \<Rightarrow> Inr (Some d))"

subsection \<open>Transcription of a clip\<close>

text \<open>A transcription segment (\<open>start\<close>, \<open>end\<close>, \<open>text\<close>) and the value \<open>create_subtitles\<close>
  receives: \<open>None\<close>, a plain string, or a dict with the keys \<open>'text'\<close> and
  \<open>'segments'\<close> whose segments have all three keys (dicts that lack one are not in the
  type).\<close>

record segment =
  seg_start :: real
  seg_end :: real
  seg_text :: string

datatype transcription = NoneData | Text string | Dict string "segment list"

text \<open>
  \<open>transcribe_segment(start_time, end_time)\<close>. The extraction of the audio and the
  speech-to-text model are given by their outcome: \<open>Inl e\<close> when a step raises, else
  the text and the segments of the result, with timestamps local to the clip.
  \<open>str_float\<close> is \<open>str\<close> on a float, used by the fallback text only.
  \<^verbatim>\<open>
  text = result.get('text', '').strip()
  segments = result.get('segments', [])
  if not text:
      return {'text': f"...", 'segments': []}
  text = text.replace('\n', ' ').replace('  ', ' ')
  text = text.strip()
  adjusted_segments = []
  for segment in segments:
      adjusted_segment = {
          'start': segment['start'] + start_time,
          'end': segment['end'] + start_time,
          'text': segment['text'].strip()
      }
      adjusted_segments.append(adjusted_segment)
  return {'text': text, 'segments': adjusted_segments}
  \<close>
\<close>

fun replace_double_space :: "string \<Rightarrow> string" where
  "replace_double_space (x # y # rest) =
     (if x = CHR '' '' \<and> y = CHR '' '' then CHR '' '' # replace_double_space rest
      else x # replace_double_space (y # rest))"
| "replace_double_space cs = cs"

definition segment_fallback_text :: "(real \<Rightarrow> string) \<Rightarrow> real \<Rightarrow> real \<Rightarrow> string" where
  "segment_fallback_text str_float start_time end_time =
     ''Transcri'' @ [CHR 0xE7, CHR 0xE3] @ ''o do segmento '' @ str_float start_time @ ''s - '' @
     str_float end_time @ ''s''"

definition adjust_segment :: "real \<Rightarrow> segment \<Rightarrow> segment" where
  "adjust_segment start_time segment =
     \<lparr>seg_start = fadd (seg_start segment) start_time,
      seg_end = fadd (seg_end segment) start_time,
      seg_text = strip (seg_text segment)\<rparr>"

definition transcribe_segment :: "(real \<Rightarrow> string) \<Rightarrow> (error + string \<times> segment list) \<Rightarrow> real \<Rightarrow> real \<Rightarrow> transcription" where
  "transcribe_segment str_float result start_time end_time =
     (case result of
        Inl e \<Rightarrow> Dict (segment_fallback_text str_float start_time end_time) []
      | Inr (result_text, segments) \<Rightarrow>
          (let text = strip result_text
           in if text = [] then Dict (segment_fallback_text str_float start_time end_time) []
              else Dict (strip (replace_double_space
                           (map (\<lambda>c. if c = CHR 0x0A then CHR '' '' else c) text)))
                        (map (adjust_segment start_time) segments)))"

subsection \<open>Sentence splitting\<close>




subsection \<open>Subtitle synchroniser\<close>

text \<open>One cue of the subtitle file:
  \<open>f"{subtitle_id}\n{start_str} --> {end_str}\n{subtitle_text}\n\n"\<close>.\<close>

definition cue_block :: "int \<Rightarrow> string \<Rightarrow> string \<Rightarrow> string \<Rightarrow> string" where
  "cue_block subtitle_id start_str end_str subtitle_text =
     str_int subtitle_id @ newline @ start_str @ '' --> '' @ end_str @ newline @
     subtitle_text @ newline @ newline"


text \<open>
  The loop over the segments of a structured transcription:
  \<^verbatim>\<open>
  for segment in segments:
      original_start = segment['start']
      original_end = segment['end']
      cut_start_time = self.get_cut_start_time(cut_id)
      relative_start = max(0, original_start - cut_start_time)
      relative_end = max(0, original_end - cut_start_time)
      relative_end = min(relative_end, cut_duration)
      segment_text = segment['text'].strip()
      segment_text = segment_text.replace('"', '').replace("'", '').replace('\\', '')
      if segment_text and relative_end > relative_start:
          start_str = self.format_srt_time(relative_start)
          end_str = self.format_srt_time(relative_end)
          subtitle_text = self.create_multi_line_subtitle(segment_text.split())
          srt_content += f"{subtitle_id}\n{start_str} --> {end_str}\n{subtitle_text}\n\n"
          subtitle_id += 1
  \<close>
\<close>

fun segments_loop :: "(error + real option) \<Rightarrow> int \<Rightarrow> real \<Rightarrow> segment list \<Rightarrow> (int \<rightharpoonup> real) option \<Rightarrow> string \<Rightarrow> int \<Rightarrow> string \<times> int \<times> (int \<rightharpoonup> real) option" where
  "segments_loop video_info cut_id cut_duration [] store srt_content subtitle_id =
     (srt_content, subtitle_id, store)"
| "segments_loop video_info cut_id cut_duration (segment # rest) store srt_content subtitle_id =
     (let original_start = seg_start segment;
          original_end = seg_end segment;
          (cut_start_time, store1) = get_cut_start_time video_info store cut_id;
          relative_start = max 0 (fsub original_start cut_start_time);
          relative_end = min (max 0 (fsub original_end cut_start_time)) cut_duration;
          segment_text = remove_quotes (strip (seg_text segment))
      in if segment_text \<noteq> [] \<and> relative_end > relative_start
         then segments_loop video_info cut_id cut_duration rest store1
                (srt_content @ cue_block subtitle_id (format_srt_time relative_start)
                   (format_srt_time relative_end) (create_multi_line_subtitle (split segment_text)))
                (subtitle_id + 1)
         else segments_loop video_info cut_id cut_duration rest store1 srt_content subtitle_id)"






subsection \<open>The specification's wording of the layout and of the cues\<close>

text \<open>"If more than 3 lines result, merge the last two repeatedly until exactly 3
  remain": the first two lines stay, the others are joined by spaces.\<close>

definition three_lines :: "string list \<Rightarrow> string list" where
  "three_lines lines =
     (if length lines > 3 then take 2 lines @ [join '' '' (drop 2 lines)] else lines)"

text \<open>The cue of a segment for a clip that starts at \<open>clip_start\<close> and lasts
  \<open>clip_length\<close>: \<open>relativeStart = max(0, start - clipStart)\<close>,
  \<open>relativeEnd = min(max(0, end - clipStart), clipLength)\<close>, quotes and backslashes
  stripped from the text, a cue only for a non-empty text and \<open>relativeEnd > relativeStart\<close>,
  its text wrapped by \<open>create_multi_line_subtitle\<close>. The timestamps are floats and the
  difference is that of floats.\<close>

definition relative_start :: "real \<Rightarrow> segment \<Rightarrow> real" where
  "relative_start clip_start segment = max 0 (fsub (seg_start segment) clip_start)"

definition relative_end :: "real \<Rightarrow> real \<Rightarrow> segment \<Rightarrow> real" where
  "relative_end clip_start clip_length segment =
     min (max 0 (fsub (seg_end segment) clip_start)) clip_length"

definition cleaned_text :: "segment \<Rightarrow> string" where
  "cleaned_text segment = remove_quotes (strip (seg_text segment))"

definition emits_cue :: "real \<Rightarrow> real \<Rightarrow> segment \<Rightarrow> bool" where
  "emits_cue clip_start clip_length segment \<longleftrightarrow>
     cleaned_text segment \<noteq> [] \<and>
     relative_end clip_start clip_length segment > relative_start clip_start segment"

fun render_cues :: "real \<Rightarrow> real \<Rightarrow> int \<Rightarrow> segment list \<Rightarrow> string" where
  "render_cues clip_start clip_length k [] = []"
| "render_cues clip_start clip_length k (segment # rest) =
     cue_block k (format_srt_time (relative_start clip_start segment))
       (format_srt_time (relative_end clip_start clip_length segment))
       (create_multi_line_subtitle (split (cleaned_text segment)))
     @ render_cues clip_start clip_length (k + 1) rest"

text \<open>The start time stored for a clip id, if any.\<close>

definition stored_start :: "(int \<rightharpoonup> real) option \<Rightarrow> int \<Rightarrow> real option" where
  "stored_start store cut_id = (case store of None \<Rightarrow> None | Some m \<Rightarrow> m cut_id)"


text \<open>Segments of an example with timestamps local to a clip.\<close>

definition ex_local_segments :: "segment list" where
  "ex_local_segments =
     [\<lparr>seg_start = 1, seg_end = 3, seg_text = '' hi there ''\<rparr>,
      \<lparr>seg_start = 25, seg_end = 40, seg_text = ''the end''\<rparr>]"

(*DEFS_END*)

section \<open>Properties\<close>

subsection \<open>Binary64 arithmetic\<close>

text \<open>Powers of two and the binary exponent.\<close>

lemma pow2_powr: "pow2 e = 2 powr (of_int e)"
proof (cases "0 \<le> e")
  case True
  then show ?thesis by (simp add: pow2_def powr_realpow [symmetric])
next
  case False
  then have "(2::real) powr (of_int e) = 1 / 2 powr (of_int (- e))"
    by (simp add: powr_minus_divide)
  also have "\<dots> = 1 / 2 ^ nat (- e)"
    using False powr_realpow [of "2::real" "nat (- e)"] by simp
  finally show ?thesis using False by (simp add: pow2_def)
qed

lemma pow2_pos: "0 < pow2 e"
  by (simp add: pow2_powr)

lemma pow2_add: "pow2 (a + b) = pow2 a * pow2 b"
  by (simp add: pow2_powr powr_add)

lemma pow2_Suc: "pow2 (e + 1) = 2 * pow2 e"
  by (simp add: pow2_add) (simp add: pow2_def)

lemma pow2_mono: "a \<le> b \<Longrightarrow> pow2 a \<le> pow2 b"
  by (simp add: pow2_powr)

lemma pow2_less_iff: "pow2 a < pow2 b \<longleftrightarrow> a < b"
  by (simp add: pow2_powr)

lemma pow2_numeral: "pow2 (int n) = 2 ^ n"
  by (simp add: pow2_def)

lemma binary_exponent_bounds:
  "0 < x \<Longrightarrow> pow2 (binary_exponent x) \<le> x \<and> x < pow2 (binary_exponent x + 1)"
proof (induction x rule: binary_exponent.induct)
  case (1 x)
  show ?case
  proof (cases "x < 1")
    case True
    have e: "binary_exponent x = binary_exponent (2 * x) - 1"
      using 1(3) True by (subst binary_exponent.simps) simp
    have ih: "pow2 (binary_exponent (2 * x)) \<le> 2 * x \<and> 2 * x < pow2 (binary_exponent (2 * x) + 1)"
      using 1(1) [of] 1(3) True by simp
    have "pow2 (binary_exponent (2 * x)) = 2 * pow2 (binary_exponent (2 * x) - 1)"
      using pow2_Suc [of "binary_exponent (2 * x) - 1"] by simp
    moreover have "pow2 (binary_exponent (2 * x) + 1) = 2 * pow2 (binary_exponent (2 * x))"
      by (rule pow2_Suc)
    ultimately show ?thesis using ih e by simp
  next
    case False
    show ?thesis
    proof (cases "2 \<le> x")
      case True
      have e: "binary_exponent x = binary_exponent (x / 2) + 1"
        using 1(3) False True by (subst binary_exponent.simps) simp
      have ih: "pow2 (binary_exponent (x / 2)) \<le> x / 2 \<and> x / 2 < pow2 (binary_exponent (x / 2) + 1)"
        using 1(2) 1(3) False True by simp
      have "pow2 (binary_exponent (x / 2) + 1 + 1) = 2 * pow2 (binary_exponent (x / 2) + 1)"
        by (rule pow2_Suc)
      moreover have "pow2 (binary_exponent (x / 2) + 1) = 2 * pow2 (binary_exponent (x / 2))"
        by (rule pow2_Suc)
      ultimately show ?thesis using ih e by simp
    next
      case F2: False
      have e: "binary_exponent x = 0"
        using 1(3) False F2 by (subst binary_exponent.simps) simp
      show ?thesis using False F2 e by (simp add: pow2_def)
    qed
  qed
qed

lemma binary_exponent_unique:
  assumes "pow2 e \<le> x" "x < pow2 (e + 1)"
  shows "binary_exponent x = e"
proof -
  have pos: "0 < x" using assms(1) pow2_pos [of e] by linarith
  let ?b = "binary_exponent x"
  have b: "pow2 ?b \<le> x" "x < pow2 (?b + 1)" using binary_exponent_bounds [OF pos] by simp_all
  have "pow2 e < pow2 (?b + 1)" using assms(1) b(2) by linarith
  then have "e < ?b + 1" by (simp add: pow2_less_iff)
  moreover have "pow2 ?b < pow2 (e + 1)" using assms(2) b(1) by linarith
  then have "?b < e + 1" by (simp add: pow2_less_iff)
  ultimately show ?thesis by linarith
qed

lemma round_half_even_of_int: "round_half_even (of_int n) = n"
  by (simp add: round_half_even_def)

lemma round_half_even_bounds: "\<lfloor>m\<rfloor> \<le> round_half_even m \<and> round_half_even m \<le> \<lceil>m\<rceil>"
proof -
  have "m = of_int \<lfloor>m\<rfloor> \<or> \<lceil>m\<rceil> = \<lfloor>m\<rfloor> + 1"
    by (metis ceiling_altdef of_int_floor_cancel)
  moreover have "m = of_int \<lfloor>m\<rfloor> \<Longrightarrow> ?thesis"
    by (metis ceiling_of_int floor_of_int order_refl round_half_even_of_int)
  moreover have "\<lceil>m\<rceil> = \<lfloor>m\<rfloor> + 1 \<Longrightarrow> ?thesis"
    by (simp add: round_half_even_def Let_def)
  ultimately show ?thesis by blast
qed

lemma round_half_even_mono:
  assumes "a \<le> b"
  shows "round_half_even a \<le> round_half_even b"
proof (cases "\<lfloor>a\<rfloor> = \<lfloor>b\<rfloor>")
  case True
  have "a - of_int \<lfloor>a\<rfloor> \<le> b - of_int \<lfloor>b\<rfloor>" using assms True by simp
  then show ?thesis using True by (auto simp: round_half_even_def Let_def)
next
  case False
  then have "\<lfloor>a\<rfloor> < \<lfloor>b\<rfloor>" using floor_mono [OF assms] by linarith
  then have "\<lfloor>a\<rfloor> + 1 \<le> \<lfloor>b\<rfloor>" by simp
  moreover have "round_half_even a \<le> \<lfloor>a\<rfloor> + 1"
    by (simp add: round_half_even_def Let_def)
  moreover have "\<lfloor>b\<rfloor> \<le> round_half_even b"
    using round_half_even_bounds by blast
  ultimately show ?thesis by linarith
qed

text \<open>The rounding keeps the sign and the order, and fixes the numbers \<open>k * 2^j\<close> with
  \<open>|k| \<le> 2^53\<close>, among them the integers up to \<open>2^53\<close> and its own results.\<close>

lemma round_binary64_0: "round_binary64 0 = 0"
  by (simp add: round_binary64_def)

lemma round_binary64_minus: "round_binary64 (- x) = - round_binary64 x"
  by (simp add: round_binary64_def Let_def sgn_minus)

lemma pow2_numeral_52: "pow2 52 = 2 ^ 52" "pow2 53 = 2 ^ 53" "pow2 0 = 1"
  by (simp_all add: pow2_def)

lemma pow2_unit_52: "pow2 e = pow2 (e - 52) * 2 ^ 52"
proof -
  have "e = (e - 52) + 52" by linarith
  then have "pow2 e = pow2 ((e - 52) + 52)" by (rule arg_cong)
  also have "\<dots> = pow2 (e - 52) * pow2 52" by (rule pow2_add)
  finally show ?thesis by (simp only: pow2_numeral_52)
qed

lemma pow2_unit_53: "pow2 (e + 1) = pow2 (e - 52) * 2 ^ 53"
proof -
  have "e + 1 = (e - 52) + 53" by linarith
  then have "pow2 (e + 1) = pow2 ((e - 52) + 53)" by (rule arg_cong)
  also have "\<dots> = pow2 (e - 52) * pow2 53" by (rule pow2_add)
  finally show ?thesis by (simp only: pow2_numeral_52)
qed

lemma div_unit: "a = c * p \<Longrightarrow> 0 < p \<Longrightarrow> a / p = (c::real)"
  by simp

lemma div_unit2: "b = c * p \<Longrightarrow> 0 < p \<Longrightarrow> a * b / p = a * (c::real)"
  by simp

lemma round_binary64_pos_eq:
  "0 < x \<Longrightarrow> round_binary64 x =
     of_int (round_half_even (x / pow2 (binary_exponent x - 52))) * pow2 (binary_exponent x - 52)"
  by (simp add: round_binary64_def Let_def)

lemma mantissa_bounds:
  assumes "0 < x"
  shows "2 ^ 52 \<le> x / pow2 (binary_exponent x - 52) \<and> x / pow2 (binary_exponent x - 52) < 2 ^ 53"
proof -
  let ?e = "binary_exponent x"
  have b: "pow2 ?e \<le> x" "x < pow2 (?e + 1)" using binary_exponent_bounds [OF assms] by simp_all
  have p: "0 < pow2 (?e - 52)" by (rule pow2_pos)
  have "2 ^ 52 * pow2 (?e - 52) \<le> x" using b(1) pow2_unit_52 [of ?e] by (simp add: mult.commute)
  moreover have "x < 2 ^ 53 * pow2 (?e - 52)" using b(2) pow2_unit_53 [of ?e] by (simp add: mult.commute)
  ultimately show ?thesis using p
    by (simp add: pos_le_divide_eq pos_divide_less_eq)
qed

lemma round_pos_bounds:
  assumes "0 < x"
  shows "pow2 (binary_exponent x) \<le> round_binary64 x \<and> round_binary64 x \<le> pow2 (binary_exponent x + 1)"
proof -
  let ?e = "binary_exponent x"
  let ?u = "pow2 (?e - 52)"
  let ?m = "x / ?u"
  have m: "2 ^ 52 \<le> ?m" "?m < 2 ^ 53" using mantissa_bounds [OF assms] by simp_all
  have "round_half_even (of_int (2 ^ 52)) \<le> round_half_even ?m"
    by (rule round_half_even_mono) (use m in simp)
  then have lo: "2 ^ 52 \<le> round_half_even ?m" by (simp only: round_half_even_of_int)
  have "round_half_even ?m \<le> round_half_even (of_int (2 ^ 53))"
    by (rule round_half_even_mono) (use m in simp)
  then have hi: "round_half_even ?m \<le> 2 ^ 53" by (simp only: round_half_even_of_int)
  have r: "round_binary64 x = of_int (round_half_even ?m) * ?u"
    using assms by (rule round_binary64_pos_eq)
  have e1: "pow2 ?e = 2 ^ 52 * ?u"
    using pow2_unit_52 [of ?e] by (simp add: mult.commute)
  have e2: "pow2 (?e + 1) = 2 ^ 53 * ?u"
    using pow2_unit_53 [of ?e] by (simp add: mult.commute)
  have p: "0 < ?u" by (rule pow2_pos)
  have "(2 ^ 52 :: real) \<le> of_int (round_half_even ?m)" using lo
    by (metis of_int_le_iff of_int_numeral of_int_power)
  moreover have "of_int (round_half_even ?m) \<le> (2 ^ 53 :: real)" using hi
    by (metis of_int_le_iff of_int_numeral of_int_power)
  ultimately show ?thesis unfolding r e1 e2 using p by simp
qed

lemma round_binary64_pos: "0 < x \<Longrightarrow> 0 < round_binary64 x"
  using round_pos_bounds [of x] pow2_pos [of "binary_exponent x"] by linarith

lemma round_binary64_nonneg: "0 \<le> x \<Longrightarrow> 0 \<le> round_binary64 x"
  using round_binary64_pos [of x] by (cases "x = 0") (simp_all add: round_binary64_0 less_eq_real_def)

lemma round_pos_exact:
  assumes "0 < k" "k \<le> 2 ^ 53"
  shows "round_binary64 (of_int k * pow2 j) = of_int k * pow2 j"
proof -
  let ?x = "of_int k * pow2 j"
  let ?e = "binary_exponent ?x"
  have pos: "0 < ?x" using assms(1) pow2_pos [of j] by simp
  have b: "pow2 ?e \<le> ?x" "?x < pow2 (?e + 1)" using binary_exponent_bounds [OF pos] by simp_all
  have r: "round_binary64 ?x = of_int (round_half_even (?x / pow2 (?e - 52))) * pow2 (?e - 52)"
    using pos by (rule round_binary64_pos_eq)
  have "\<exists>n. ?x / pow2 (?e - 52) = of_int n"
  proof (cases "k = 2 ^ 53")
    case True
    have "?x = pow2 (j + 53)" using True pow2_add [of j 53] by (simp add: pow2_numeral_52 mult.commute)
    then have "?e = j + 53"
      using binary_exponent_unique [of "j + 53" ?x] pow2_less_iff [of "j + 53" "j + 53 + 1"] by simp
    then have "?e - 52 = j + 1" by linarith
    then have "pow2 (?e - 52) = 2 * pow2 j" using pow2_Suc [of j] by (simp only:)
    then have "?x = 2 ^ 52 * pow2 (?e - 52)"
      using True by simp
    then have "?x / pow2 (?e - 52) = 2 ^ 52"
      using pow2_pos [of "?e - 52"] by (rule div_unit)
    then have "?x / pow2 (?e - 52) = of_int (2 ^ 52)" by simp
    then show ?thesis by blast
  next
    case False
    then have "k < 2 ^ 53" using assms(2) by simp
    then have "real_of_int k < 2 ^ 53"
      by (metis of_int_less_iff of_int_numeral of_int_power)
    then have "?x < 2 ^ 53 * pow2 j" using pow2_pos [of j] by simp
    also have "\<dots> = pow2 (j + 53)" using pow2_add [of j 53] by (simp add: pow2_numeral_52 mult.commute)
    finally have "pow2 ?e < pow2 (j + 53)" using b(1) by linarith
    then have "?e < j + 53" by (simp add: pow2_less_iff)
    then have d: "0 \<le> j - (?e - 52)" by simp
    have "pow2 j = pow2 (j - (?e - 52)) * pow2 (?e - 52)"
      using pow2_add [of "j - (?e - 52)" "?e - 52"] by simp
    also have "pow2 (j - (?e - 52)) = of_int (2 ^ nat (j - (?e - 52)))"
      using d by (simp add: pow2_def)
    finally have "pow2 j = of_int (2 ^ nat (j - (?e - 52))) * pow2 (?e - 52)" .
    then have "?x / pow2 (?e - 52) = of_int k * of_int (2 ^ nat (j - (?e - 52)))"
      using pow2_pos [of "?e - 52"] by (rule div_unit2)
    then have "?x / pow2 (?e - 52) = of_int (k * 2 ^ nat (j - (?e - 52)))"
      by simp
    then show ?thesis by blast
  qed
  then obtain n where n: "?x / pow2 (?e - 52) = of_int n" by blast
  have "round_binary64 ?x = of_int n * pow2 (?e - 52)"
    unfolding r n round_half_even_of_int by (rule refl)
  also have "\<dots> = ?x" using n pow2_pos [of "?e - 52"] by (simp add: field_simps)
  finally show ?thesis .
qed

lemma round_binary64_exact:
  assumes "\<bar>k\<bar> \<le> 2 ^ 53"
  shows "round_binary64 (of_int k * pow2 j) = of_int k * pow2 j"
proof -
  consider "k = 0" | "0 < k" | "k < 0" by linarith
  then show ?thesis
  proof cases
    case 1
    then show ?thesis by (simp add: round_binary64_0)
  next
    case 2
    then show ?thesis using assms round_pos_exact [of k j] by simp
  next
    case 3
    then have "round_binary64 (of_int (- k) * pow2 j) = of_int (- k) * pow2 j"
      using assms round_pos_exact [of "- k" j] by simp
    then show ?thesis using round_binary64_minus [of "of_int k * pow2 j"] by simp
  qed
qed

lemma round_binary64_of_int:
  "\<bar>k\<bar> \<le> 2 ^ 53 \<Longrightarrow> round_binary64 (of_int k) = of_int k"
  using round_binary64_exact [of k 0] by (simp add: pow2_def)

lemma round_binary64_form:
  "\<exists>k j. \<bar>k\<bar> \<le> 2 ^ 53 \<and> round_binary64 x = of_int k * pow2 j"
proof -
  have pos: "\<exists>k j. \<bar>k\<bar> \<le> 2 ^ 53 \<and> round_binary64 y = of_int k * pow2 j" if y: "0 < y" for y
  proof -
    let ?m = "y / pow2 (binary_exponent y - 52)"
    have m: "2 ^ 52 \<le> ?m" "?m < 2 ^ 53" using mantissa_bounds [OF y] by simp_all
    have "round_half_even (of_int 0) \<le> round_half_even ?m"
      by (rule round_half_even_mono) (use m in simp)
    then have lo: "0 \<le> round_half_even ?m" by (simp only: round_half_even_of_int)
    have "round_half_even ?m \<le> round_half_even (of_int (2 ^ 53))"
      by (rule round_half_even_mono) (use m in simp)
    then have hi: "round_half_even ?m \<le> 2 ^ 53" by (simp only: round_half_even_of_int)
    have "round_binary64 y = of_int (round_half_even ?m) * pow2 (binary_exponent y - 52)"
      using y by (rule round_binary64_pos_eq)
    then show ?thesis using lo hi by (intro exI [of _ "round_half_even ?m"] exI [of _ "binary_exponent y - 52"]) simp
  qed
  consider "x = 0" | "0 < x" | "x < 0" by linarith
  then show ?thesis
  proof cases
    case 1
    then show ?thesis by (intro exI [of _ 0]) (simp add: round_binary64_0)
  next
    case 2
    then show ?thesis by (rule pos)
  next
    case 3
    then obtain k j where "\<bar>k\<bar> \<le> 2 ^ 53" "round_binary64 (- x) = of_int k * pow2 j"
      using pos [of "- x"] by auto
    then show ?thesis
      using round_binary64_minus [of x] by (intro exI [of _ "- k"] exI [of _ j]) simp
  qed
qed

lemma round_binary64_idem: "round_binary64 (round_binary64 x) = round_binary64 x"
proof -
  obtain k j where "\<bar>k\<bar> \<le> 2 ^ 53" "round_binary64 x = of_int k * pow2 j"
    using round_binary64_form [of x] by blast
  then show ?thesis using round_binary64_exact [of k j] by simp
qed

lemma binary_exponent_mono:
  assumes "0 < x" "x \<le> y"
  shows "binary_exponent x \<le> binary_exponent y"
proof -
  have "pow2 (binary_exponent x) \<le> x" using binary_exponent_bounds [OF assms(1)] by simp
  moreover have "y < pow2 (binary_exponent y + 1)"
    using binary_exponent_bounds [of y] assms by simp
  ultimately have "pow2 (binary_exponent x) < pow2 (binary_exponent y + 1)" using assms(2) by linarith
  then show ?thesis by (simp add: pow2_less_iff)
qed

lemma round_pos_mono:
  assumes "0 < x" "x \<le> y"
  shows "round_binary64 x \<le> round_binary64 y"
proof (cases "binary_exponent x = binary_exponent y")
  case True
  let ?u = "pow2 (binary_exponent y - 52)"
  have p: "0 < ?u" by (rule pow2_pos)
  have "x / ?u \<le> y / ?u" using assms(2) p by (simp add: divide_right_mono)
  then have "round_half_even (x / ?u) \<le> round_half_even (y / ?u)" by (rule round_half_even_mono)
  then have "real_of_int (round_half_even (x / ?u)) * ?u \<le> of_int (round_half_even (y / ?u)) * ?u"
    using p by simp
  moreover have "0 < y" using assms by simp
  ultimately show ?thesis
    using assms(1) True by (simp add: round_binary64_pos_eq)
next
  case False
  then have "binary_exponent x + 1 \<le> binary_exponent y"
    using binary_exponent_mono [OF assms] by simp
  then have "pow2 (binary_exponent x + 1) \<le> pow2 (binary_exponent y)" by (rule pow2_mono)
  moreover have "round_binary64 x \<le> pow2 (binary_exponent x + 1)"
    using round_pos_bounds [OF assms(1)] by simp
  moreover have "pow2 (binary_exponent y) \<le> round_binary64 y"
    using round_pos_bounds [of y] assms by simp
  ultimately show ?thesis by linarith
qed

lemma round_binary64_mono:
  assumes "x \<le> y"
  shows "round_binary64 x \<le> round_binary64 y"
proof -
  consider "0 < x" | "x \<le> 0" "0 \<le> y" | "y < 0" by linarith
  then show ?thesis
  proof cases
    case 1
    then show ?thesis using assms by (rule round_pos_mono)
  next
    case 2
    have "round_binary64 x \<le> 0"
      using round_binary64_nonneg [of "- x"] 2(1) round_binary64_minus [of x] by simp
    moreover have "0 \<le> round_binary64 y" using 2(2) by (rule round_binary64_nonneg)
    ultimately show ?thesis by linarith
  next
    case 3
    then have "round_binary64 (- y) \<le> round_binary64 (- x)"
      using assms round_pos_mono [of "- y" "- x"] by simp
    then show ?thesis by (simp add: round_binary64_minus)
  qed
qed

subsection \<open>Time formatter\<close>

lemma py_int_of_int: "py_int (of_int k) = k"
  by (simp add: py_int_def)

lemma py_int_nonneg: "0 \<le> x \<Longrightarrow> py_int x = \<lfloor>x\<rfloor>"
  by (simp add: py_int_def)

lemma floor_div_int: "0 < b \<Longrightarrow> \<lfloor>x / real_of_int b\<rfloor> = \<lfloor>x\<rfloor> div b"
  by (simp add: floor_divide_real_eq_div)

lemma floor_remainder:
  assumes "0 < m"
  shows "0 \<le> x - m * of_int \<lfloor>x / m\<rfloor> \<and> x - m * of_int \<lfloor>x / m\<rfloor> < m"
proof -
  have "m * of_int \<lfloor>x / m\<rfloor> \<le> m * (x / m)"
    using assms by (intro mult_left_mono) simp_all
  also have "\<dots> = x" using assms by simp
  finally have lo: "m * of_int \<lfloor>x / m\<rfloor> \<le> x" .
  have "x / m < of_int \<lfloor>x / m\<rfloor> + 1" by linarith
  then have "m * (x / m) < m * (of_int \<lfloor>x / m\<rfloor> + 1)"
    using assms by (simp only: mult_less_cancel_left_pos)
  then have "x < m * of_int \<lfloor>x / m\<rfloor> + m" using assms by (simp add: algebra_simps)
  then show ?thesis using lo by simp
qed

lemma fmod_nonneg:
  assumes "0 \<le> x" "0 < m"
  shows "fmod x m = x - m * of_int \<lfloor>x / m\<rfloor>"
  using assms by (simp add: fmod_def py_int_nonneg)

lemma py_mod_eq:
  assumes "0 \<le> x" "0 < m"
  shows "py_mod x m = x - m * of_int \<lfloor>x / m\<rfloor>"
  using assms floor_remainder [OF assms(2), of x]
  by (simp add: py_mod_def Let_def fmod_nonneg)

lemma py_mod_bounds: "0 \<le> x \<Longrightarrow> 0 < m \<Longrightarrow> 0 \<le> py_mod x m \<and> py_mod x m < m"
  using floor_remainder [of m x] by (simp add: py_mod_eq)

lemma floor_py_mod:
  assumes "0 \<le> x" "0 < b"
  shows "\<lfloor>py_mod x (real_of_int b)\<rfloor> = \<lfloor>x\<rfloor> mod b"
proof -
  have "\<lfloor>x - real_of_int b * of_int \<lfloor>x / real_of_int b\<rfloor>\<rfloor> = \<lfloor>x\<rfloor> - b * (\<lfloor>x\<rfloor> div b)"
    using assms by (simp add: floor_div_int flip: of_int_mult)
  also have "\<dots> = \<lfloor>x\<rfloor> mod b" by (simp add: minus_mult_div_eq_mod)
  finally show ?thesis using assms by (simp add: py_mod_eq)
qed

text \<open>Below \<open>2^53\<close> the floor division by a positive integer is exact: the multiple of the
  divisor that \<open>fmod\<close> leaves is an integer below \<open>2^53\<close>, and so is the quotient.\<close>

lemma py_floordiv_int:
  assumes "0 \<le> x" "x < 2 ^ 53" "0 < b"
  shows "py_floordiv x (of_int b) = of_int (\<lfloor>x\<rfloor> div b)"
proof -
  let ?q = "\<lfloor>x\<rfloor> div b"
  have q: "\<lfloor>x / real_of_int b\<rfloor> = ?q" using assms(3) by (rule floor_div_int)
  have r: "fmod x (of_int b) = x - of_int (b * ?q)"
    using assms by (simp add: fmod_nonneg q)
  have rb: "0 \<le> x - of_int (b * ?q)"
    using floor_remainder [of "real_of_int b" x] assms(3) by (simp add: q)
  have q0: "0 \<le> ?q" using assms by (simp add: pos_imp_zdiv_nonneg_iff)
  have "real_of_int (b * ?q) \<le> x" using rb by simp
  then have "real_of_int (b * ?q) < 2 ^ 53" using assms(2) by linarith
  then have bq: "b * ?q < 2 ^ 53"
    by (metis of_int_less_iff of_int_numeral of_int_power)
  have bq0: "0 \<le> b * ?q" using q0 assms(3) by simp
  have "?q \<le> b * ?q" using q0 assms(3) by (simp add: mult_le_cancel_right1)
  then have qlt: "?q < 2 ^ 53" using bq by linarith
  have s: "fsub x (x - of_int (b * ?q)) = of_int (b * ?q)"
    using round_binary64_of_int [of "b * ?q"] bq bq0 by (simp add: fsub_def)
  have "real_of_int (b * ?q) / real_of_int b = of_int ?q" using assms(3) by simp
  then have d: "fdiv (of_int (b * ?q)) (of_int b) = of_int ?q"
    using round_binary64_of_int [of ?q] qlt q0 by (simp add: fdiv_def)
  have z: "fsub (of_int ?q) (of_int ?q) = 0" by (simp add: fsub_def round_binary64_0)
  show ?thesis
    unfolding py_floordiv_def Let_def r s d
    using rb assms(3) z by simp
qed

lemma hours_eq:
  "0 \<le> s \<Longrightarrow> s < 2 ^ 53 \<Longrightarrow> py_int (py_floordiv s 3600) = \<lfloor>s\<rfloor> div 3600"
  using py_floordiv_int [of s 3600] by (simp add: py_int_of_int)

lemma minutes_eq:
  assumes "0 \<le> s"
  shows "py_int (py_floordiv (py_mod s 3600) 60) = \<lfloor>s\<rfloor> mod 3600 div 60"
proof -
  have b: "0 \<le> py_mod s 3600" "py_mod s 3600 < 3600"
    using py_mod_bounds [of s 3600] assms by simp_all
  have "py_mod s 3600 < 2 ^ 53" using b(2) by simp
  then have "py_floordiv (py_mod s 3600) (of_int 60) = of_int (\<lfloor>py_mod s 3600\<rfloor> div 60)"
    using b(1) by (intro py_floordiv_int) simp_all
  moreover have "\<lfloor>py_mod s 3600\<rfloor> = \<lfloor>s\<rfloor> mod 3600"
    using floor_py_mod [of s 3600] assms by simp
  ultimately show ?thesis by (simp add: py_int_of_int)
qed

lemma secs_eq: "0 \<le> s \<Longrightarrow> py_int (py_mod s 60) = \<lfloor>s\<rfloor> mod 60"
  using floor_py_mod [of s 60] py_mod_bounds [of s 60] by (simp add: py_int_nonneg)

lemma millis_eq:
  assumes "0 \<le> s"
  shows "py_int (fmul (py_mod s 1) 1000) = \<lfloor>round_binary64 ((s - of_int \<lfloor>s\<rfloor>) * 1000)\<rfloor>"
proof -
  have m: "py_mod s 1 = s - of_int \<lfloor>s\<rfloor>" using py_mod_eq [of s 1] assms by simp
  have "0 \<le> (s - of_int \<lfloor>s\<rfloor>) * 1000" by simp
  then have "0 \<le> round_binary64 ((s - of_int \<lfloor>s\<rfloor>) * 1000)" by (rule round_binary64_nonneg)
  then show ?thesis by (simp add: m fmul_def py_int_nonneg)
qed

lemma format_srt_time_floor:
  assumes "0 \<le> s" "s < 2 ^ 53"
  shows "format_srt_time s =
     format_0d 2 (\<lfloor>s\<rfloor> div 3600) @ '':'' @ format_0d 2 (\<lfloor>s\<rfloor> mod 3600 div 60) @ '':'' @
     format_0d 2 (\<lfloor>s\<rfloor> mod 60) @ '','' @
     format_0d 3 \<lfloor>round_binary64 ((s - of_int \<lfloor>s\<rfloor>) * 1000)\<rfloor>"
  unfolding format_srt_time_def Let_def hours_eq [OF assms] minutes_eq [OF assms(1)]
    secs_eq [OF assms(1)] millis_eq [OF assms(1)] by (rule refl)

text \<open>The float \<open>3661.234\<close>.\<close>

lemma binary64_3661_234_value: "binary64_3661_234 = 8051138710017671 / 2 ^ 41"
  unfolding binary64_3661_234_def by code_simp

text \<open>A negative time is outside the formatter's contract: the remainders of a small
  negative float round up to the modulus.\<close>

lemma format_srt_time_negative:
  "format_srt_time (- 1 / 2 ^ 70) = ''-1:60:60,1000''"
  by code_simp

text \<open>
  Claim C8, as stated: whole hours, minutes and seconds are truncated by integer
  division and the milliseconds are truncated to three digits, so that
  \<open>format_srt_time(0) = "00:00:00,000"\<close> and \<open>format_srt_time(3661.234) = "01:01:01,234"\<close>.
  The second example fails: the float \<open>3661.234\<close> lies just below the decimal, the
  product of its fractional part with 1000 is \<open>233.9999999999236\<close>, and the truncation
  gives 233.
\<close>

theorem format_srt_time_3661_234_counterexample:
  "format_srt_time binary64_3661_234 \<noteq> ''01:01:01,234''"
  by code_simp

text \<open>
  Claim C8, amended: for a time \<open>0 \<le> s < 2^53\<close> the whole hours, minutes and seconds
  are truncated, never rounded: they are \<open>\<lfloor>s\<rfloor> div 3600\<close>, \<open>\<lfloor>s\<rfloor> mod 3600 div 60\<close> and
  \<open>\<lfloor>s\<rfloor> mod 60\<close>. The milliseconds are the float product of the fractional part
  \<open>s - \<lfloor>s\<rfloor>\<close> with 1000, truncated to an integer. \<open>format_srt_time(0) = "00:00:00,000"\<close>,
  and the float \<open>3661.234\<close> gives \<open>"01:01:01,233"\<close>.
\<close>

theorem format_srt_time_truncates:
  assumes "0 \<le> s" "s < 2 ^ 53"
  shows "format_srt_time s =
     format_0d 2 (\<lfloor>s\<rfloor> div 3600) @ '':'' @ format_0d 2 (\<lfloor>s\<rfloor> mod 3600 div 60) @ '':'' @
     format_0d 2 (\<lfloor>s\<rfloor> mod 60) @ '','' @
     format_0d 3 \<lfloor>round_binary64 ((s - of_int \<lfloor>s\<rfloor>) * 1000)\<rfloor>
   \<and> format_srt_time 0 = ''00:00:00,000''
   \<and> format_srt_time binary64_3661_234 = ''01:01:01,233''"
proof -
  have a: "format_srt_time 0 = ''00:00:00,000''"
    by code_simp
  have c: "format_srt_time binary64_3661_234 = ''01:01:01,233''"
    by code_simp
  show ?thesis using format_srt_time_floor [OF assms] a c by blast
qed

text \<open>The floats \<open>0.3\<close> and \<open>1.234\<close> lie below their decimals as well, but the float
  products of their fractional parts with 1000 round up to 300 and to 234.\<close>

theorem format_srt_time_truncates_witness:
  "format_srt_time (round_binary64 (3 / 10)) = ''00:00:00,300''
   \<and> format_srt_time (round_binary64 (1234 / 1000)) = ''00:00:01,234''"
proof -
  have h1: "0 \<le> round_binary64 (3 / 10)" "round_binary64 (3 / 10) < 2 ^ 53"
    by code_simp+
  have r1: "format_0d 2 (\<lfloor>round_binary64 (3 / 10)\<rfloor> div 3600) @ '':'' @
     format_0d 2 (\<lfloor>round_binary64 (3 / 10)\<rfloor> mod 3600 div 60) @ '':'' @
     format_0d 2 (\<lfloor>round_binary64 (3 / 10)\<rfloor> mod 60) @ '','' @
     format_0d 3 \<lfloor>round_binary64 ((round_binary64 (3 / 10) -
                                       of_int \<lfloor>round_binary64 (3 / 10)\<rfloor>) * 1000)\<rfloor>
     = ''00:00:00,300''"
    by code_simp
  have h2: "0 \<le> round_binary64 (1234 / 1000)" "round_binary64 (1234 / 1000) < 2 ^ 53"
    by code_simp+
  have r2: "format_0d 2 (\<lfloor>round_binary64 (1234 / 1000)\<rfloor> div 3600) @ '':'' @
     format_0d 2 (\<lfloor>round_binary64 (1234 / 1000)\<rfloor> mod 3600 div 60) @ '':'' @
     format_0d 2 (\<lfloor>round_binary64 (1234 / 1000)\<rfloor> mod 60) @ '','' @
     format_0d 3 \<lfloor>round_binary64 ((round_binary64 (1234 / 1000) -
                                       of_int \<lfloor>round_binary64 (1234 / 1000)\<rfloor>) * 1000)\<rfloor>
     = ''00:00:01,234''"
    by code_simp
  have "format_srt_time (round_binary64 (3 / 10)) = ''00:00:00,300''"
    using format_srt_time_truncates [OF h1] r1 by (simp only:)
  moreover have "format_srt_time (round_binary64 (1234 / 1000)) = ''00:00:01,234''"
    using format_srt_time_truncates [OF h2] r2 by (simp only:)
  ultimately show ?thesis by blast
qed

subsection \<open>Stored clip start times\<close>

lemma get_cut_start_time_stored:
  "stored_start store cut_id = Some t \<Longrightarrow> get_cut_start_time video_info store cut_id = (t, store)"
  by (cases store) (simp_all add: stored_start_def get_cut_start_time_def)

lemma get_cut_start_time_idem:
  "get_cut_start_time video_info (snd (get_cut_start_time video_info store cut_id)) cut_id
     = get_cut_start_time video_info store cut_id"
  by (cases store; cases video_info)
     (auto simp: get_cut_start_time_def Let_def split: option.splits)

text \<open>
  Claim C9: for a clip id whose start time was never stored, \<open>get_cut_start_time\<close> does
  not fail. It returns 0 when \<open>get_video_info\<close> raises or when the total duration minus
  30 is not positive; otherwise it returns \<open>(cut_id - 1) * 30\<close> clamped to the total
  duration minus 30 (the 30 is a constant of the method, no target length is an
  argument), and stores it: every later lookup of that id returns the same value and
  leaves the store as it is, whatever the prober then says.
\<close>

theorem get_cut_start_time_fallback:
  assumes "stored_start store cut_id = None"
  shows "fst (get_cut_start_time (Inl e) store cut_id) = 0
       \<and> fst (get_cut_start_time (Inr info) store cut_id) =
           (if (case info of None \<Rightarrow> 300 | Some d \<Rightarrow> d) - 30 \<le> 0 then 0
            else min (of_int (cut_id - 1) * 30) ((case info of None \<Rightarrow> 300 | Some d \<Rightarrow> d) - 30))
       \<and> (0 < (case info of None \<Rightarrow> 300 | Some d \<Rightarrow> d) - 30 \<longrightarrow>
            get_cut_start_time video_info' (snd (get_cut_start_time (Inr info) store cut_id)) cut_id =
              (min (of_int (cut_id - 1) * 30) ((case info of None \<Rightarrow> 300 | Some d \<Rightarrow> d) - 30),
               snd (get_cut_start_time (Inr info) store cut_id)))"
  using assms
  by (cases store; cases info)
     (auto simp: get_cut_start_time_def stored_start_def Let_def split: option.splits)

text \<open>Clip 3 of a 100 second video starts at 60, of a 40 second video at 10 (clamped), of
  a 20 second video at 0; a failing prober gives 0; the value 60 is read back from the
  store even when the prober fails afterwards.\<close>

theorem get_cut_start_time_fallback_witness:
  "fst (get_cut_start_time (Inl ProbeError) None 3) = 0
   \<and> fst (get_cut_start_time (Inr (Some 100)) None 3) = 60
   \<and> fst (get_cut_start_time (Inr (Some 40)) None 3) = 10
   \<and> fst (get_cut_start_time (Inr (Some 20)) None 3) = 0
   \<and> fst (get_cut_start_time (Inl ProbeError) (snd (get_cut_start_time (Inr (Some 100)) None 3)) 3) = 60"
proof -
  have h: "stored_start None 3 = None" by (simp add: stored_start_def)
  show ?thesis
    using get_cut_start_time_fallback [OF h, of ProbeError "Some 100" "Inl ProbeError"]
          get_cut_start_time_fallback [OF h, of ProbeError "Some 40" "Inl ProbeError"]
          get_cut_start_time_fallback [OF h, of ProbeError "Some 20" "Inl ProbeError"]
    by simp
qed

subsection \<open>Start-point generator: determinism\<close>

text \<open>
  Claim C2, as stated: the generator is seeded with \<open>processing_count + 42\<close> before a
  plan is generated. For a video no longer than two clips the method returns its fixed
  plan before the seeding: with the linear congruential generator in state 7 and
  processing count 0, the plan for 50 seconds and clips of 30 is \<open>[0, 20]\<close> and the
  generator is still in state 7, not in the seeded state 42.
\<close>

theorem start_points_unseeded_counterexample:
  "generate_varied_start_points lcg_ops 0 7 50 30 3 = Some (Inr [0, 20], 7)
   \<and> rng_seed lcg_ops (0 + 42) = 42"
  by code_simp

text \<open>
  Claim C2, amended: the plan \<open>generate_varied_start_points\<close> returns does not depend on
  the state of the generator at the call, so it is a function of the total duration, the
  cut duration, the number of cuts and the processing count, and two runs with the same
  processing count give the same plan. When the video is longer than two clips (and the
  available duration is positive) the generator is seeded with \<open>processing_count + 42\<close>
  and the plan is what the strategy of the duration's tier computes from that seeded
  state; otherwise the plan is the fixed one, nothing is drawn and the generator is left
  as it was.
\<close>

theorem start_points_seeded:
  "generate_varied_start_points ops processing_count g total_duration cut_duration num_cuts =
     (if total_duration \<le> fmul cut_duration 2
      then Some (Inr (if num_cuts = 1 then [0] else [0, fsub total_duration cut_duration]), g)
      else if fsub total_duration cut_duration \<le> 0 then Some (Inr [0], g)
      else if total_duration \<le> 300
      then Some (simple_variation ops (fsub total_duration cut_duration) cut_duration num_cuts
                   (rng_seed ops (processing_count + 42)))
      else if total_duration \<le> 1800
      then Some (medium_variation ops (fsub total_duration cut_duration) cut_duration num_cuts
                   (rng_seed ops (processing_count + 42)))
      else advanced_variation ops (fsub total_duration cut_duration) cut_duration num_cuts
             (rng_seed ops (processing_count + 42)))
   \<and> map_option fst (generate_varied_start_points ops processing_count g total_duration
                        cut_duration num_cuts)
     = map_option fst (generate_varied_start_points ops processing_count g' total_duration
                        cut_duration num_cuts)"
  by (simp add: generate_varied_start_points_def Let_def)

text \<open>A video of 100 seconds cut into 5 clips of 30, with the linear congruential
  generator and processing count 0: the plan is that of the simple strategy run from
  the seeded state 42, whether the generator was in state 7 or 99 at the call.\<close>

theorem start_points_seeded_witness:
  "generate_varied_start_points lcg_ops 0 7 100 30 5 =
     Some (simple_variation lcg_ops 70 30 5 42)
   \<and> generate_varied_start_points lcg_ops 0 99 100 30 5 =
     Some (simple_variation lcg_ops 70 30 5 42)
   \<and> map_option fst (generate_varied_start_points lcg_ops 0 7 100 30 5)
     = map_option fst (generate_varied_start_points lcg_ops 0 99 100 30 5)"
proof -
  have a: "\<not> (100::real) \<le> fmul 30 2" "\<not> fsub 100 30 \<le> 0" "fsub 100 30 = 70"
          "rng_seed lcg_ops (0 + 42) = 42"
    by code_simp+
  have "generate_varied_start_points lcg_ops 0 7 100 30 5 =
          Some (simple_variation lcg_ops 70 30 5 42)"
    using start_points_seeded [of lcg_ops 0 7 100 30 5 7] a by simp
  moreover have "generate_varied_start_points lcg_ops 0 99 100 30 5 =
          Some (simple_variation lcg_ops 70 30 5 42)"
    using start_points_seeded [of lcg_ops 0 99 100 30 5 99] a by simp
  moreover have "map_option fst (generate_varied_start_points lcg_ops 0 7 100 30 5)
     = map_option fst (generate_varied_start_points lcg_ops 0 99 100 30 5)"
    using start_points_seeded [of lcg_ops 0 7 100 30 5 99] by (rule conjunct2)
  ultimately show ?thesis by blast
qed

subsection \<open>Subtitle synchroniser: structured transcription\<close>

text \<open>The loop over the segments appends the cues of the segments that emit one, in
  order, and numbers them consecutively; the clip start is read once.\<close>

lemma segments_loop_eq:
  "get_cut_start_time video_info store cut_id = (cs, store1) \<Longrightarrow>
   segments_loop video_info cut_id cut_duration segments store srt k =
     (srt @ render_cues cs cut_duration k (filter (emits_cue cs cut_duration) segments),
      k + int (length (filter (emits_cue cs cut_duration) segments)),
      if segments = [] then store else store1)"
proof (induction segments arbitrary: store srt k)
  case Nil
  then show ?case by simp
next
  case (Cons segment rest)
  have idem: "get_cut_start_time video_info store1 cut_id = (cs, store1)"
    using get_cut_start_time_idem [of video_info store cut_id] Cons.prems by simp
  show ?case
    using Cons.IH [OF idem] Cons.prems
    by (simp add: emits_cue_def relative_start_def relative_end_def cleaned_text_def Let_def)
qed




subsection \<open>Offsets of a transcribed clip\<close>

text \<open>A clip that starts at the float \<open>7.7\<close> and a segment that the speech-to-text model
  places from 2 to 3 seconds into the clip.\<close>

lemma binary64_7_7_value: "round_binary64 (77 / 10) = 8669429282688205 / 2 ^ 50"
  by code_simp

lemma transcribe_segment_cases:
  "transcribe_segment str_float (Inr (result_text, segments)) start_time end_time =
     (if strip result_text = []
      then Dict (segment_fallback_text str_float start_time end_time) []
      else Dict (strip (replace_double_space
                   (map (\<lambda>c. if c = CHR 0x0A then CHR '' '' else c) (strip result_text))))
                (map (adjust_segment start_time) segments))"
  by (simp add: transcribe_segment_def Let_def)

lemma adjusted_relative:
  "relative_start start_time (adjust_segment start_time segment) =
     max 0 (fsub (fadd (seg_start segment) start_time) start_time)
   \<and> relative_end start_time clip_length (adjust_segment start_time segment) =
       min (max 0 (fsub (fadd (seg_end segment) start_time) start_time)) clip_length"
  by (simp add: relative_start_def relative_end_def adjust_segment_def)

lemma round_trip_exact:
  "is_binary64 t \<Longrightarrow> fadd t s = t + s \<Longrightarrow> fsub (fadd t s) s = t"
  by (simp add: fsub_def is_binary64_def)

lemma segments_loop_stored:
  assumes "stored_start store cut_id = Some start_time"
  shows "fst (segments_loop video_info cut_id clip_length segments store srt k) =
           srt @ render_cues start_time clip_length k (filter (emits_cue start_time clip_length) segments)"
  using segments_loop_eq [OF get_cut_start_time_stored [OF assms], of video_info clip_length segments srt k]
  by simp

text \<open>
  Claim C10, as stated: when the start time stored for the clip id is the start passed
  to \<open>transcribe_segment\<close>, the addition and the subtraction cancel exactly and the
  relative start of a cue is \<open>max(0, local start)\<close>. The timestamps are floats and both
  operations round: for a clip that starts at \<open>7.7\<close>, the segment from 2 to 3 comes back
  from \<open>1.9999999999999991\<close> to \<open>2.999999999999999\<close>, and the cue is written from
  \<open>00:00:01,999\<close> to \<open>00:00:02,999\<close>.
\<close>

theorem transcribe_offsets_counterexample:
  "relative_start (round_binary64 (77 / 10))
     (adjust_segment (round_binary64 (77 / 10)) \<lparr>seg_start = 2, seg_end = 3, seg_text = ''hi''\<rparr>)
     = 2 - 1 / 2 ^ 50
   \<and> relative_start (round_binary64 (77 / 10))
     (adjust_segment (round_binary64 (77 / 10)) \<lparr>seg_start = 2, seg_end = 3, seg_text = ''hi''\<rparr>)
     \<noteq> max 0 2
   \<and> fst (segments_loop (Inr (Some 100)) 1 30
            (map (adjust_segment (round_binary64 (77 / 10)))
               [\<lparr>seg_start = 2, seg_end = 3, seg_text = ''hi''\<rparr>])
            (Some [1 \<mapsto> round_binary64 (77 / 10)]) [] 1) =
       ''1\<newline>00:00:01,999 --> 00:00:02,999\<newline>hi\<newline>\<newline>''"
  by code_simp

text \<open>
  Claim C10, amended: \<open>transcribe_segment(start, end)\<close> returns, when the transcribed
  text is not blank, every segment with both timestamps shifted by the float addition of
  \<open>start\<close> (and no segment at all when the text is blank). When the start time stored
  for the clip id is that \<open>start\<close>, \<open>get_cut_start_time\<close> returns it, and the relative
  start of a cue is \<open>max(0, (local start + start) - start)\<close> in float arithmetic, the
  relative end \<open>min(max(0, (local end + start) - start), clip_length)\<close>. The two
  operations cancel, and the relative start is \<open>max(0, local start)\<close>, whenever the sum
  of the local timestamp and \<open>start\<close> is a binary64 number.
\<close>

theorem transcribe_offsets_round_trip:
  assumes "stored_start store cut_id = Some start_time"
  shows "get_cut_start_time video_info store cut_id = (start_time, store)
       \<and> transcribe_segment str_float (Inr (result_text, segments)) start_time end_time =
           (if strip result_text = []
            then Dict (segment_fallback_text str_float start_time end_time) []
            else Dict (strip (replace_double_space
                         (map (\<lambda>c. if c = CHR 0x0A then CHR '' '' else c) (strip result_text))))
                      (map (adjust_segment start_time) segments))
       \<and> seg_start (adjust_segment start_time segment) = fadd (seg_start segment) start_time
       \<and> seg_end (adjust_segment start_time segment) = fadd (seg_end segment) start_time
       \<and> relative_start start_time (adjust_segment start_time segment) =
            max 0 (fsub (fadd (seg_start segment) start_time) start_time)
       \<and> relative_end start_time clip_length (adjust_segment start_time segment) =
            min (max 0 (fsub (fadd (seg_end segment) start_time) start_time)) clip_length
       \<and> (is_binary64 (seg_start segment) \<and>
            fadd (seg_start segment) start_time = seg_start segment + start_time \<longrightarrow>
            relative_start start_time (adjust_segment start_time segment) =
              max 0 (seg_start segment))
       \<and> (is_binary64 (seg_end segment) \<and>
            fadd (seg_end segment) start_time = seg_end segment + start_time \<longrightarrow>
            relative_end start_time clip_length (adjust_segment start_time segment) =
              min (max 0 (seg_end segment)) clip_length)
       \<and> fst (segments_loop video_info cut_id clip_length
                 (map (adjust_segment start_time) segments) store [] 1) =
            render_cues start_time clip_length 1
              (filter (emits_cue start_time clip_length) (map (adjust_segment start_time) segments))"
proof -
  have g: "get_cut_start_time video_info store cut_id = (start_time, store)"
    using assms by (rule get_cut_start_time_stored)
  have a: "seg_start (adjust_segment start_time segment) = fadd (seg_start segment) start_time"
          "seg_end (adjust_segment start_time segment) = fadd (seg_end segment) start_time"
    by (simp_all add: adjust_segment_def)
  have s: "is_binary64 (seg_start segment) \<and>
            fadd (seg_start segment) start_time = seg_start segment + start_time \<longrightarrow>
            relative_start start_time (adjust_segment start_time segment) =
              max 0 (seg_start segment)"
    using adjusted_relative [of start_time segment clip_length]
          round_trip_exact [of "seg_start segment" start_time] by simp
  have e: "is_binary64 (seg_end segment) \<and>
            fadd (seg_end segment) start_time = seg_end segment + start_time \<longrightarrow>
            relative_end start_time clip_length (adjust_segment start_time segment) =
              min (max 0 (seg_end segment)) clip_length"
    using adjusted_relative [of start_time segment clip_length]
          round_trip_exact [of "seg_end segment" start_time] by simp
  have l: "fst (segments_loop video_info cut_id clip_length
                 (map (adjust_segment start_time) segments) store [] 1) =
            render_cues start_time clip_length 1
              (filter (emits_cue start_time clip_length) (map (adjust_segment start_time) segments))"
    using segments_loop_stored [OF assms, of video_info clip_length
            "map (adjust_segment start_time) segments" "[]" 1]
    by simp
  show ?thesis
    using g a s e l transcribe_segment_cases [of str_float result_text segments start_time end_time]
          adjusted_relative [of start_time segment clip_length]
    by blast
qed

text \<open>The second clip of a plan starts at 37 and lasts 30; its local segments at 1 to 3
  and 25 to 40 have exact sums with 37 and give the cues 1 to 3 and 25 to 30. A blank
  transcription gives no segments.\<close>

theorem transcribe_offsets_round_trip_witness:
  "get_cut_start_time (Inr (Some 100)) (Some [2 \<mapsto> 37]) 2 = (37, Some [2 \<mapsto> 37])
   \<and> transcribe_segment (\<lambda>t. ''t'') (Inr (''hi there the end'', ex_local_segments)) 37 67 =
       Dict ''hi there the end'' (map (adjust_segment 37) ex_local_segments)
   \<and> transcribe_segment (\<lambda>t. ''t'') (Inr ('' '', ex_local_segments)) 37 67 =
       Dict (segment_fallback_text (\<lambda>t. ''t'') 37 67) []
   \<and> relative_start 37 (adjust_segment 37 (hd ex_local_segments)) = 1
   \<and> relative_end 37 30 (adjust_segment 37 (hd ex_local_segments)) = 3
   \<and> fst (segments_loop (Inr (Some 100)) 2 30 (map (adjust_segment 37) ex_local_segments)
            (Some [2 \<mapsto> 37]) [] 1) =
       ''1\<newline>00:00:01,000 --> 00:00:03,000\<newline>hi there\<newline>\<newline>2\<newline>00:00:25,000 --> 00:00:30,000\<newline>the end\<newline>\<newline>''"
proof -
  have h: "stored_start (Some [2 \<mapsto> 37]) 2 = Some 37" by (simp add: stored_start_def)
  have s: "strip ''hi there the end'' \<noteq> []" by code_simp
  have s': "strip '' '' = []" by code_simp
  have t: "strip (replace_double_space
             (map (\<lambda>c. if c = CHR 0x0A then CHR '' '' else c) (strip ''hi there the end'')))
           = ''hi there the end''" by code_simp
  have x: "is_binary64 (seg_start (hd ex_local_segments)) \<and>
           fadd (seg_start (hd ex_local_segments)) 37 = seg_start (hd ex_local_segments) + 37"
    by code_simp
  have y: "is_binary64 (seg_end (hd ex_local_segments)) \<and>
           fadd (seg_end (hd ex_local_segments)) 37 = seg_end (hd ex_local_segments) + 37"
    by code_simp
  have a: "max 0 (seg_start (hd ex_local_segments)) = 1" by (simp add: ex_local_segments_def)
  have b: "min (max 0 (seg_end (hd ex_local_segments))) 30 = 3" by (simp add: ex_local_segments_def)
  have r: "render_cues 37 30 1 (filter (emits_cue 37 30) (map (adjust_segment 37) ex_local_segments)) =
       ''1\<newline>00:00:01,000 --> 00:00:03,000\<newline>hi there\<newline>\<newline>2\<newline>00:00:25,000 --> 00:00:30,000\<newline>the end\<newline>\<newline>''"
    by code_simp
  have m: "get_cut_start_time (Inr (Some 100)) (Some [2 \<mapsto> 37]) 2 = (37, Some [2 \<mapsto> 37])
       \<and> transcribe_segment (\<lambda>t. ''t'') (Inr (''hi there the end'', ex_local_segments)) 37 67 =
           (if strip ''hi there the end'' = []
            then Dict (segment_fallback_text (\<lambda>t. ''t'') 37 67) []
            else Dict (strip (replace_double_space
                         (map (\<lambda>c. if c = CHR 0x0A then CHR '' '' else c) (strip ''hi there the end''))))
                      (map (adjust_segment 37) ex_local_segments))
       \<and> relative_start 37 (adjust_segment 37 (hd ex_local_segments)) =
              max 0 (seg_start (hd ex_local_segments))
       \<and> relative_end 37 30 (adjust_segment 37 (hd ex_local_segments)) =
              min (max 0 (seg_end (hd ex_local_segments))) 30
       \<and> fst (segments_loop (Inr (Some 100)) 2 30
                 (map (adjust_segment 37) ex_local_segments) (Some [2 \<mapsto> 37]) [] 1) =
            render_cues 37 30 1
              (filter (emits_cue 37 30) (map (adjust_segment 37) ex_local_segments))"
    using transcribe_offsets_round_trip [OF h, of "Inr (Some 100)" "\<lambda>t. ''t''" "''hi there the end''"
            ex_local_segments 67 "hd ex_local_segments" 30] x y
    by blast
  have n: "transcribe_segment (\<lambda>t. ''t'') (Inr ('' '', ex_local_segments)) 37 67 =
       Dict (segment_fallback_text (\<lambda>t. ''t'') 37 67) []"
    using transcribe_offsets_round_trip [OF h, of "Inr (Some 100)" "\<lambda>t. ''t''" "'' ''"
            ex_local_segments 67 "hd ex_local_segments" 30] s'
    by simp
  show ?thesis
    using m n s by (simp only: t a b r if_False) 
qed

subsection \<open>Subtitle synchroniser: empty transcription\<close>







subsection \<open>Text segmenter: the layout of a cue\<close>

declare merge_last_lines.simps [simp del]

lemma join_snoc_merge: "join sep (zs @ [x @ sep @ y]) = join sep (zs @ [x, y])"
  by (induction sep zs rule: join.induct) simp_all

lemma two_last: "2 \<le> length ls \<Longrightarrow> \<exists>zs x y. ls = zs @ [x, y]"
proof -
  assume "2 \<le> length ls"
  then obtain ys y where a: "ls = ys @ [y]" and "1 \<le> length ys"
    by (cases ls rule: rev_cases) auto
  then obtain zs x where "ys = zs @ [x]"
    by (cases ys rule: rev_cases) auto
  with a show ?thesis by auto
qed

text \<open>Merging the last two lines while there are more than three keeps the first two
  lines and joins the others by spaces.\<close>

lemma merge_last_lines_closed:
  "3 < length ls \<Longrightarrow> merge_last_lines ls = take 2 ls @ [join '' '' (drop 2 ls)]"
proof (induction ls rule: merge_last_lines.induct)
  case (1 ls)
  then have len: "3 < length ls" by simp
  then obtain zs x y where ls: "ls = zs @ [x, y]"
    using two_last [of ls] by auto
  let ?ls' = "zs @ [x @ '' '' @ y]"
  have step: "merge_last_lines ls = merge_last_lines ?ls'"
    using len by (subst merge_last_lines.simps) (simp add: ls butlast_append)
  have zs2: "2 \<le> length zs" using len ls by simp
  show ?case
  proof (cases "3 < length ?ls'")
    case True
    have "merge_last_lines ?ls' = take 2 ?ls' @ [join '' '' (drop 2 ?ls')]"
      using "1.IH" [OF len] True by (simp add: ls butlast_append)
    also have "take 2 ?ls' = take 2 ls" using zs2 by (simp add: ls)
    also have "join '' '' (drop 2 ?ls') = join '' '' (drop 2 ls)"
      using zs2 join_snoc_merge [of "'' ''" "drop 2 zs" x y] by (simp add: ls)
    finally show ?thesis using step by simp
  next
    case False
    then have l2: "length zs = 2" using zs2 by simp
    then obtain a b where zs: "zs = [a, b]"
      by (cases zs; cases "tl zs") auto
    have "merge_last_lines ?ls' = ?ls'"
      using False by (subst merge_last_lines.simps) simp
    then show ?thesis using step by (simp add: ls zs)
  qed
qed

lemma merge_last_lines_short: "length ls \<le> 3 \<Longrightarrow> merge_last_lines ls = ls"
  by (subst merge_last_lines.simps) simp

lemma merge_last_lines_three_lines: "merge_last_lines ls = three_lines ls"
  using merge_last_lines_closed [of ls] merge_last_lines_short [of ls]
  by (cases "3 < length ls") (simp_all add: three_lines_def)

lemma words_thirds: "p \<le> q \<Longrightarrow> take p ws @ take (q - p) (drop p ws) @ drop q ws = ws"
proof -
  assume "p \<le> q"
  then have "take (q - p) (drop p ws) @ drop q ws = drop p ws"
    by (metis add_diff_inverse_nat append_take_drop_id drop_drop not_less add.commute)
  then show ?thesis by simp
qed

text \<open>
  Claim C7, as stated: a joined length \<open>L \<le> 20\<close> gives a single line, and after the
  initial split the text is re-flowed whenever a line exceeds 25 characters. The empty
  word list has \<open>L = 0\<close> and gives the two-line placeholder. The words \<open>a\<close>,
  \<open>bbbbbbbbbbbbb\<close>, \<open>ccccccccccccc\<close> have \<open>L = 29\<close>: the split at the midpoint gives a
  second line of 27 characters, which is returned as it is; the re-flow would have
  given the lines \<open>a bbbbbbbbbbbbb\<close> and \<open>ccccccccccccc\<close>.
\<close>

theorem create_multi_line_subtitle_counterexample:
  "create_multi_line_subtitle [''a'', ''bbbbbbbbbbbbb'', ''ccccccccccccc''] =
     ''a'' @ line_break @ ''bbbbbbbbbbbbb ccccccccccccc''
   \<and> length ''bbbbbbbbbbbbb ccccccccccccc'' = 27
   \<and> join line_break (merge_last_lines (reflow [''a'', ''bbbbbbbbbbbbb'', ''ccccccccccccc''])) =
     ''a bbbbbbbbbbbbb'' @ line_break @ ''ccccccccccccc''
   \<and> create_multi_line_subtitle [] = placeholder_subtitle
   \<and> placeholder_subtitle = ''Transcri'' @ [CHR 0xE7, CHR 0xE3] @ ''o'' @ line_break @ ''autom'' @ [CHR 0xE1] @ ''tica''"
  by code_simp

text \<open>
  Claim C7, amended: the empty word list gives the placeholder. Otherwise, by the
  length \<open>L\<close> of the words joined by spaces: \<open>L \<le> 20\<close> gives that single line;
  \<open>20 < L \<le> 40\<close> gives two lines split at the midpoint word index, whatever their
  lengths; \<open>L > 40\<close> gives three lines split at thirds, and in this case only, when one of
  the three lines exceeds 25 characters, the words are re-flowed greedily (the loop
  \<open>reflow\<close>: a word joins the current line while
  \<open>current_length + len(word) + 1 \<le> 25\<close> and fewer than two lines are completed, else it
  starts a new line), and if more than three lines result the first two are kept and
  the others merged into the third.
\<close>

theorem create_multi_line_subtitle_layout:
  "create_multi_line_subtitle words =
     (if words = [] then placeholder_subtitle
      else if length (join '' '' words) \<le> 20 then join '' '' words
      else if length (join '' '' words) \<le> 40
      then join '' '' (take (length words div 2) words) @ line_break @
           join '' '' (drop (length words div 2) words)
      else if length (join '' '' (take (length words div 3) words)) \<le> 25
            \<and> length (join '' '' (take (length words * 2 div 3 - length words div 3)
                                    (drop (length words div 3) words))) \<le> 25
            \<and> length (join '' '' (drop (length words * 2 div 3) words)) \<le> 25
      then join '' '' (take (length words div 3) words) @ line_break @
           join '' '' (take (length words * 2 div 3 - length words div 3)
                         (drop (length words div 3) words)) @ line_break @
           join '' '' (drop (length words * 2 div 3) words)
      else join line_break (three_lines (reflow words)))"
proof -
  have "length words div 3 \<le> length words * 2 div 3" by (rule div_le_mono) simp
  then have w: "take (length words div 3) words @
                take (length words * 2 div 3 - length words div 3) (drop (length words div 3) words) @
                drop (length words * 2 div 3) words = words"
    by (rule words_thirds)
  show ?thesis
    unfolding create_multi_line_subtitle_def Let_def max_chars_def merge_last_lines_three_lines w
    by (simp add: not_le not_less)
qed

text \<open>One example for each layout: a single line, two lines, three lines at thirds, and
  a re-flow whose five lines are merged into three.\<close>

lemma create_multi_line_subtitle_examples:
  "create_multi_line_subtitle [''hello'', ''world''] = ''hello world''
   \<and> create_multi_line_subtitle [''the'', ''quick'', ''brown'', ''fox'', ''jumps''] =
       ''the quick'' @ line_break @ ''brown fox jumps''
   \<and> create_multi_line_subtitle
       [''the'', ''quick'', ''brown'', ''fox'', ''jumps'', ''over'', ''the'', ''lazy'', ''dog''] =
       ''the quick brown'' @ line_break @ ''fox jumps over'' @ line_break @ ''the lazy dog''
   \<and> reflow [''a'', ''b'', ''cccccccccccccccccccccccccccc'', ''dddddddddddd'', ''e'', ''f'', ''g''] =
       [''a b'', ''cccccccccccccccccccccccccccc'', ''dddddddddddd'', ''e'', ''f'', ''g'']
   \<and> create_multi_line_subtitle
       [''a'', ''b'', ''cccccccccccccccccccccccccccc'', ''dddddddddddd'', ''e'', ''f'', ''g''] =
       ''a b'' @ line_break @ ''cccccccccccccccccccccccccccc'' @ line_break @ ''dddddddddddd e f g''"
  by code_simp

subsection \<open>Clip planner: the clips of a plan\<close>

text \<open>Integers up to \<open>2^53\<close> written as numerals are binary64 numbers, and the rounding
  keeps a bound that is such an integer.\<close>

lemma round_binary64_numeral:
  "numeral n \<le> (2::int) ^ 53 \<Longrightarrow> round_binary64 (numeral n) = numeral n"
  using round_binary64_of_int [of "numeral n"] by simp

lemma round_binary64_neg_numeral:
  "numeral n \<le> (2::int) ^ 53 \<Longrightarrow> round_binary64 (- numeral n) = - numeral n"
  using round_binary64_of_int [of "- numeral n"] by simp

lemma round_binary64_1: "round_binary64 1 = 1"
  using round_binary64_of_int [of 1] by simp

lemma round_ge_int:
  "of_int k \<le> x \<Longrightarrow> \<bar>k\<bar> \<le> 2 ^ 53 \<Longrightarrow> of_int k \<le> round_binary64 x"
  using round_binary64_mono [of "of_int k" x] round_binary64_of_int [of k] by simp

lemma round_le_int:
  "x \<le> of_int k \<Longrightarrow> \<bar>k\<bar> \<le> 2 ^ 53 \<Longrightarrow> round_binary64 x \<le> of_int k"
  using round_binary64_mono [of x "of_int k"] round_binary64_of_int [of k] by simp

text \<open>The loop of \<open>create_cuts\<close> appends, in order, the clips of the positions that have
  a start point, an effective length of at least one second and collaborators that
  succeed.\<close>

lemma cuts_loop_eq:
  "fst (cuts_loop media_ok total_duration duration start_points ks store cuts) =
     cuts @ map (\<lambda>i. clip_at total_duration duration i (start_points ! i))
              (filter (\<lambda>i. i < length start_points
                          \<and> 1 \<le> fsub (min (fadd (start_points ! i) duration) total_duration)
                                   (start_points ! i)
                          \<and> media_ok (int i + 1)) ks)"
proof (induction ks arbitrary: store cuts)
  case Nil
  show ?case by simp
next
  case (Cons i ks)
  show ?case
    by (simp add: Cons.IH Let_def clip_at_def not_less)
qed

text \<open>
  Claim C6: for each start point the clip's end is \<open>min(start + duration, total_duration)\<close>;
  a clip whose effective length \<open>end - start\<close> is below one second is not emitted; every
  emitted clip has as its id the position of its start point counted from 1, so the ids
  have gaps where a clip was left out. The clips \<open>create_cuts\<close> returns are the clips
  \<open>clip_at\<close> of the positions \<open>0 .. num_cuts - 1\<close> that have a start point, an effective
  length of at least 1 and collaborators that succeed (\<open>media_ok\<close>), in order.
\<close>

theorem create_cuts_clips:
  "fst (cuts_loop media_ok total_duration duration start_points ks store cuts) =
     cuts @ map (\<lambda>i. clip_at total_duration duration i (start_points ! i))
              (filter (\<lambda>i. i < length start_points
                          \<and> 1 \<le> fsub (min (fadd (start_points ! i) duration) total_duration)
                                   (start_points ! i)
                          \<and> media_ok (int i + 1)) ks)
   \<and> map_option fst (create_cuts ops processing_count media_ok total_duration g stored duration) =
       (case choose_num_cuts total_duration duration of
          Inl e \<Rightarrow> Some (Inl e)
        | Inr num_cuts \<Rightarrow>
            (case generate_varied_start_points ops processing_count g total_duration duration
                    num_cuts of
               None \<Rightarrow> None
             | Some (Inl e, g') \<Rightarrow> Some (Inl e)
             | Some (Inr start_points, g') \<Rightarrow>
                 Some (Inr (map (\<lambda>i. clip_at total_duration duration i (start_points ! i))
                              (filter (\<lambda>i. i < length start_points
                                          \<and> 1 \<le> fsub (min (fadd (start_points ! i) duration)
                                                         total_duration) (start_points ! i)
                                          \<and> media_ok (int i + 1)) [0..<nat num_cuts])))))
   \<and> clip_id (clip_at total_duration duration i start_time) = int i + 1
   \<and> clip_start_time (clip_at total_duration duration i start_time) = start_time
   \<and> clip_end_time (clip_at total_duration duration i start_time) =
       min (fadd start_time duration) total_duration
   \<and> clip_duration (clip_at total_duration duration i start_time) =
       fsub (min (fadd start_time duration) total_duration) start_time"
proof -
  have c: "map_option fst (create_cuts ops processing_count media_ok total_duration g stored duration) =
       (case choose_num_cuts total_duration duration of
          Inl e \<Rightarrow> Some (Inl e)
        | Inr num_cuts \<Rightarrow>
            (case generate_varied_start_points ops processing_count g total_duration duration
                    num_cuts of
               None \<Rightarrow> None
             | Some (Inl e, g') \<Rightarrow> Some (Inl e)
             | Some (Inr start_points, g') \<Rightarrow>
                 Some (Inr (map (\<lambda>i. clip_at total_duration duration i (start_points ! i))
                              (filter (\<lambda>i. i < length start_points
                                          \<and> 1 \<le> fsub (min (fadd (start_points ! i) duration)
                                                         total_duration) (start_points ! i)
                                          \<and> media_ok (int i + 1)) [0..<nat num_cuts])))))"
  proof -
    have r: "cs = map (\<lambda>i. clip_at total_duration duration i (start_points ! i))
                   (filter (\<lambda>i. i < length start_points
                              \<and> 1 \<le> fsub (min (fadd (start_points ! i) duration)
                                             total_duration) (start_points ! i)
                              \<and> media_ok (int i + 1)) ks)"
      if "cuts_loop media_ok total_duration duration start_points ks st [] = (cs, st')"
      for cs start_points ks st st'
      using cuts_loop_eq [of media_ok total_duration duration start_points ks st "[]"] that
      by simp
    show ?thesis
      by (auto simp: create_cuts_def split: sum.splits option.splits prod.splits dest: r)
  qed
  show ?thesis
    using c cuts_loop_eq [of media_ok total_duration duration start_points ks store cuts]
    by (simp add: clip_at_def)
qed

text \<open>A plan of five start points for a video of 100 seconds and clips of 30: the fourth
  clip is cut at the end of the video, the fifth would start after it and is left out,
  and when the collaborators fail on clip 2 the clips 1, 3 and 4 keep their ids.\<close>

theorem create_cuts_clips_witness:
  "fst (cuts_loop (\<lambda>cut_id. cut_id \<noteq> 2) 100 30 [7, 37, 67, 97, 127] [0, 1, 2, 3, 4] Map.empty []) =
     [\<lparr>clip_id = 1, clip_start_time = 7, clip_end_time = 37, clip_duration = 30\<rparr>,
      \<lparr>clip_id = 3, clip_start_time = 67, clip_end_time = 97, clip_duration = 30\<rparr>,
      \<lparr>clip_id = 4, clip_start_time = 97, clip_end_time = 100, clip_duration = 3\<rparr>]"
proof -
  have "fst (cuts_loop (\<lambda>cut_id. cut_id \<noteq> 2) 100 30 [7, 37, 67, 97, 127] [0, 1, 2, 3, 4] Map.empty []) =
     [] @ map (\<lambda>i. clip_at 100 30 i ([7, 37, 67, 97, 127] ! i))
              (filter (\<lambda>i. i < length [7, 37, 67, 97, 127 :: real]
                          \<and> 1 \<le> fsub (min (fadd ([7, 37, 67, 97, 127] ! i) 30) 100)
                                   ([7, 37, 67, 97, 127] ! i)
                          \<and> int i + 1 \<noteq> 2) [0, 1, 2, 3, 4])"
    using create_cuts_clips [of "\<lambda>cut_id. cut_id \<noteq> 2" 100 30 "[7, 37, 67, 97, 127]" "[0, 1, 2, 3, 4]"
            Map.empty "[]"]
    by (rule conjunct1)
  then show ?thesis
    by (simp add: clip_at_def fadd_def fsub_def round_binary64_numeral round_binary64_neg_numeral)
qed

subsection \<open>Clip planner: the number of clips\<close>

lemma is_binary64_round [simp]: "is_binary64 (round_binary64 x)"
  by (simp add: is_binary64_def round_binary64_idem)

lemma is_binary64_ops [simp]:
  "is_binary64 (fadd x y)" "is_binary64 (fsub x y)" "is_binary64 (fmul x y)"
  "is_binary64 (fdiv x y)" "is_binary64 0"
  by (simp_all add: fadd_def fsub_def fmul_def fdiv_def) (simp add: is_binary64_def round_binary64_0)

lemma is_binary64_max: "is_binary64 x \<Longrightarrow> is_binary64 y \<Longrightarrow> is_binary64 (max x y)"
  by (simp add: max_def)

text \<open>The points of \<open>_simple_variation\<close> before the sort: one for each section, none of
  them negative, all of them binary64 numbers.\<close>

lemma simple_points_props:
  "simple_points ops available_duration cut_duration section_size ks g = (pts, g') \<Longrightarrow>
   length pts = length ks \<and> (\<forall>p\<in>set pts. 0 \<le> p \<and> is_binary64 p)"
proof (induction ks arbitrary: g pts g')
  case Nil
  then show ?case by simp
next
  case (Cons i ks)
  let ?section_start = "fmul (real i) section_size"
  let ?section_end = "min (fmul (real i + 1) section_size) available_duration"
  obtain start_point g1 where first:
    "(if ?section_end > ?section_start
      then (case uniform ops 0 (min (fsub ?section_end ?section_start)
                                   (fmul cut_duration (1 / 2))) g of
              (random_offset, g') \<Rightarrow> (fadd ?section_start random_offset, g'))
      else (?section_start, g)) = (start_point, g1)"
    by fastforce
  obtain rest g2 where rest:
    "simple_points ops available_duration cut_duration section_size ks g1 = (rest, g2)"
    by fastforce
  have pts: "pts = max 0 start_point # rest"
    using Cons.prems first rest by (simp add: Let_def)
  have "is_binary64 start_point"
    using first by (auto split: if_splits prod.splits)
  then have "is_binary64 (max 0 start_point)" by (simp add: is_binary64_max)
  then show ?case using Cons.IH [OF rest] pts by simp
qed

text \<open>With a spacing of 30 the correction leaves the point at position \<open>k\<close> (from 0) at
  \<open>29 * k\<close> or later: a computed sum is at least the sum of the bounds, and a computed
  difference of at least 30 means an exact difference of more than 29.\<close>

lemma push_apart_lower:
  "of_int (29 * k) \<le> prev \<Longrightarrow> 0 \<le> k \<Longrightarrow> k + int (length ps) \<le> 1000 \<Longrightarrow> j < length ps \<Longrightarrow>
   of_int (29 * (k + 1 + int j)) \<le> push_apart 30 prev ps ! j"
proof (induction ps arbitrary: prev k j)
  case Nil
  then show ?case by simp
next
  case (Cons p ps)
  let ?p' = "if fsub p prev < 30 then fadd prev 30 else p"
  have step: "of_int (29 * (k + 1)) \<le> ?p'"
  proof (cases "fsub p prev < 30")
    case True
    have "real_of_int (29 * (k + 1)) \<le> prev + 30" using Cons.prems(1) by simp
    then have "real_of_int (29 * (k + 1)) \<le> round_binary64 (prev + 30)"
      using Cons.prems(2,3) by (intro round_ge_int) simp_all
    then show ?thesis using True by (simp add: fadd_def)
  next
    case False
    have "29 < p - prev"
    proof (rule ccontr)
      assume "\<not> 29 < p - prev"
      then have "p - prev \<le> of_int 29" by simp
      then have "round_binary64 (p - prev) \<le> of_int 29" by (rule round_le_int) simp
      then show False using False by (simp add: fsub_def)
    qed
    then show ?thesis using False Cons.prems(1) by simp
  qed
  show ?case
  proof (cases j)
    case 0
    then show ?thesis using step by (simp add: Let_def)
  next
    case (Suc j')
    have "of_int (29 * (k + 1 + 1 + int j')) \<le> push_apart 30 ?p' ps ! j'"
      using step Cons.prems Suc by (intro Cons.IH) simp_all
    then show ?thesis using Suc by (simp add: Let_def add.assoc)
  qed
qed

lemma enforce_spacing_fifth:
  assumes "length pts = 5" "\<forall>p\<in>set pts. 0 \<le> p"
  shows "length (enforce_spacing 30 pts) = 5 \<and> 116 \<le> enforce_spacing 30 pts ! 4"
proof -
  obtain a rest where pts: "pts = a # rest" "length rest = 4"
    using assms(1) by (cases pts) simp_all
  have "of_int (29 * 0) \<le> a" using assms(2) pts by simp
  then have "of_int (29 * (0 + 1 + int 3)) \<le> push_apart 30 a rest ! 3"
    using pts(2) by (intro push_apart_lower) simp_all
  moreover have "length (push_apart 30 a rest) = length rest"
    by (induction rest arbitrary: a) (simp_all add: Let_def)
  ultimately show ?thesis using pts by (simp add: enforce_spacing_def)
qed

lemma upt_5: "[0..<nat 5] = [0, 1, 2, 3, 4]"
  by code_simp

text \<open>A video of 100 seconds and clips of 30: five clips are asked for, and the simple
  strategy places the fifth start at 116 or later.\<close>

lemma plan_100_30:
  "choose_num_cuts 100 30 = Inr 5
   \<and> (\<exists>start_points g'.
        generate_varied_start_points ops processing_count g 100 30 5 = Some (Inr start_points, g')
        \<and> length start_points = 5 \<and> 116 \<le> start_points ! 4)"
proof -
  have n: "choose_num_cuts 100 30 = Inr 5"
    by (simp add: choose_num_cuts_def fmul_def round_binary64_numeral)
  have gen: "generate_varied_start_points ops processing_count g 100 30 5 =
          Some (simple_variation ops 70 30 5 (rng_seed ops (processing_count + 42)))"
    by (simp add: generate_varied_start_points_def fmul_def fsub_def round_binary64_numeral Let_def)
  obtain pts g' where sp:
    "simple_points ops 70 30 (fdiv 70 (of_int 5)) [0..<nat 5] (rng_seed ops (processing_count + 42))
       = (pts, g')"
    by fastforce
  have props: "length pts = 5" "\<forall>p\<in>set pts. 0 \<le> p"
    using simple_points_props [OF sp] by simp_all
  have "length (sort pts) = 5" "\<forall>p\<in>set (sort pts). 0 \<le> p"
    using props by simp_all
  then have e: "length (enforce_spacing 30 (sort pts)) = 5 \<and> 116 \<le> enforce_spacing 30 (sort pts) ! 4"
    by (rule enforce_spacing_fifth)
  have "simple_variation ops 70 30 5 (rng_seed ops (processing_count + 42)) =
          (Inr (enforce_spacing 30 (sort pts)), g')"
    using sp by (simp add: simple_variation_def)
  then show ?thesis using n gen e by simp
qed

lemma fifth_clip_dropped:
  assumes "116 \<le> s"
  shows "\<not> 1 \<le> fsub (min (fadd s 30) 100) s"
proof -
  have "min (fadd s 30) 100 - s \<le> of_int (- 16)" using assms by simp
  then have "round_binary64 (min (fadd s 30) 100 - s) \<le> of_int (- 16)"
    by (rule round_le_int) simp
  then show ?thesis by (simp add: fsub_def)
qed

lemma at_most_four_clips:
  "\<exists>clips. map_option fst (create_cuts ops processing_count media_ok 100 g stored 30) =
             Some (Inr clips) \<and> length clips \<le> 4"
proof -
  obtain start_points g' where gen:
    "generate_varied_start_points ops processing_count g 100 30 5 = Some (Inr start_points, g')"
    "length start_points = 5" "116 \<le> start_points ! 4"
    using plan_100_30 [of ops processing_count g] by blast
  define P where "P = (\<lambda>i. i < length start_points
                \<and> 1 \<le> fsub (min (fadd (start_points ! i) 30) 100) (start_points ! i)
                \<and> media_ok (int i + 1))"
  obtain cuts store' where loop:
    "cuts_loop media_ok 100 30 start_points [0..<nat 5]
       (case stored of None \<Rightarrow> Map.empty | Some m \<Rightarrow> m) [] = (cuts, store')"
    by fastforce
  have "cuts = map (\<lambda>i. clip_at 100 30 i (start_points ! i)) (filter P [0..<nat 5])"
    using cuts_loop_eq [of media_ok 100 30 start_points "[0..<nat 5]"
            "case stored of None \<Rightarrow> Map.empty | Some m \<Rightarrow> m" "[]"] loop
    unfolding P_def by (simp only: fst_conv append_Nil)
  then have len: "length cuts = length (filter P ([0, 1, 2, 3] @ [4]))"
    unfolding upt_5 by simp
  have "\<not> P 4" using fifth_clip_dropped [OF gen(3)] by (simp add: P_def)
  then have "filter P ([0, 1, 2, 3] @ [4]) = filter P [0, 1, 2, 3]"
    by (simp only: filter_append filter.simps if_False append_Nil2)
  moreover have "length (filter P [0, 1, 2, 3]) \<le> length [0, 1, 2, 3 :: nat]"
    by (rule length_filter_le)
  ultimately have "length cuts \<le> 4"
    using len by simp
  moreover have "map_option fst (create_cuts ops processing_count media_ok 100 g stored 30) =
                   Some (Inr cuts)"
    using plan_100_30 [of ops processing_count g] gen(1) loop by (simp add: create_cuts_def)
  ultimately show ?thesis by blast
qed

text \<open>A video of 12 seconds and clips of 15: one clip from 0 to 12.\<close>

lemma plan_12_15:
  "map_option fst (create_cuts ops processing_count (\<lambda>cut_id. True) 12 g stored 15) =
     Some (Inr [\<lparr>clip_id = 1, clip_start_time = 0, clip_end_time = 12, clip_duration = 12\<rparr>])"
proof -
  have n: "choose_num_cuts 12 15 = Inr 1"
    by (simp add: choose_num_cuts_def)
  have gen: "generate_varied_start_points ops processing_count g 12 15 1 = Some (Inr [0], g)"
    by (simp add: generate_varied_start_points_def fmul_def round_binary64_numeral)
  have "fst (cuts_loop (\<lambda>cut_id. True) 12 15 [0] [0..<nat 1] st []) =
          [\<lparr>clip_id = 1, clip_start_time = 0, clip_end_time = 12, clip_duration = 12\<rparr>]" for st
    by (simp add: Let_def fadd_def fsub_def round_binary64_numeral)
  then show ?thesis
    using n gen by (simp add: create_cuts_def split: prod.splits) (metis fst_conv)
qed

text \<open>The policy table, for a target length that is a positive integer (the application
  passes 15, 30 or 60) and a total duration below \<open>2^53\<close>.\<close>

lemma choose_num_cuts_table:
  assumes "0 < b" "b \<le> 2 ^ 49" "total_duration < 2 ^ 53"
  shows "choose_num_cuts total_duration (of_int b) =
     Inr (if total_duration \<le> 5 then 1
          else if total_duration \<le> of_int b then 1
          else if total_duration \<le> of_int (3 * b) then 3
          else if total_duration \<le> of_int (5 * b) then 5
          else if total_duration \<le> of_int (10 * b) then 10
          else min 20 \<lfloor>total_duration / of_int b\<rfloor>)"
proof -
  have m: "fmul (of_int b) 3 = of_int (3 * b)" "fmul (of_int b) 5 = of_int (5 * b)"
          "fmul (of_int b) 10 = of_int (10 * b)"
    using assms(1,2) round_binary64_of_int [of "3 * b"] round_binary64_of_int [of "5 * b"]
          round_binary64_of_int [of "10 * b"]
    by (simp_all add: fmul_def mult.commute)
  have f: "py_int (py_floordiv total_duration (of_int b)) = \<lfloor>total_duration / of_int b\<rfloor>"
    if "\<not> total_duration \<le> 5"
  proof -
    have "py_floordiv total_duration (of_int b) = of_int (\<lfloor>total_duration\<rfloor> div b)"
      using that assms by (intro py_floordiv_int) simp_all
    then show ?thesis using assms(1) by (simp add: py_int_of_int floor_div_int)
  qed
  show ?thesis
    unfolding choose_num_cuts_def m using assms(1) f by simp
qed

text \<open>
  Claim C5, as stated: the clip count follows the policy table, a video of 12 seconds
  with a target of 15 gives one clip from 0 to 12, and a video of 100 seconds with a
  target of 30 gives 5 cuts. The count chosen for the last one is 5, but five clips are
  never made: with the generator that always draws \<open>1/2\<close> the start points are 7, 37, 67,
  97 and 127, the fourth clip is cut at 100 and the fifth start lies after the end.
\<close>

theorem create_cuts_100_30_counterexample:
  "map_option fst (create_cuts (const_ops (1 / 2)) 0 (\<lambda>cut_id. True) 100 0 None 30) =
     Some (Inr [\<lparr>clip_id = 1, clip_start_time = 7, clip_end_time = 37, clip_duration = 30\<rparr>,
                \<lparr>clip_id = 2, clip_start_time = 37, clip_end_time = 67, clip_duration = 30\<rparr>,
                \<lparr>clip_id = 3, clip_start_time = 67, clip_end_time = 97, clip_duration = 30\<rparr>,
                \<lparr>clip_id = 4, clip_start_time = 97, clip_end_time = 100, clip_duration = 3\<rparr>])"
proof -
  have n: "choose_num_cuts 100 30 = Inr 5"
    by (simp add: choose_num_cuts_def fmul_def round_binary64_numeral)
  have sv: "simple_variation (const_ops (1 / 2)) 70 30 5 0 = (Inr [7, 37, 67, 97, 127], 5)"
    unfolding simple_variation_def upt_5
    by (simp add: fdiv_def fmul_def fadd_def fsub_def uniform_def const_ops_def Let_def
          enforce_spacing_def round_binary64_numeral round_binary64_neg_numeral round_binary64_0)
  have gen: "generate_varied_start_points (const_ops (1 / 2)) 0 0 100 30 5 =
               Some (Inr [7, 37, 67, 97, 127], 5)"
    using sv
    by (simp add: generate_varied_start_points_def fmul_def fsub_def round_binary64_numeral Let_def
          const_ops_def)
  have "fst (cuts_loop (\<lambda>cut_id. True) 100 30 [7, 37, 67, 97, 127] [0..<nat 5] Map.empty []) =
     [\<lparr>clip_id = 1, clip_start_time = 7, clip_end_time = 37, clip_duration = 30\<rparr>,
      \<lparr>clip_id = 2, clip_start_time = 37, clip_end_time = 67, clip_duration = 30\<rparr>,
      \<lparr>clip_id = 3, clip_start_time = 67, clip_end_time = 97, clip_duration = 30\<rparr>,
      \<lparr>clip_id = 4, clip_start_time = 97, clip_end_time = 100, clip_duration = 3\<rparr>]"
    unfolding cuts_loop_eq upt_5
    by (simp add: clip_at_def fadd_def fsub_def round_binary64_numeral round_binary64_neg_numeral)
  then show ?thesis
    using n gen by (simp add: create_cuts_def split: prod.splits) (metis fst_conv)
qed

text \<open>
  Claim C5, amended: \<open>create_cuts\<close> chooses the clip count by the policy table (1 when
  the total duration is at most 5 or at most the target length, 3, 5 or 10 when it is at
  most 3, 5 or 10 times the target length, otherwise \<open>min(20, floor(total / target))\<close>);
  a video of 12 seconds with a target of 15 gives exactly one clip, from 0 to 12; for a
  video of 100 seconds with a target of 30 the count chosen is 5, but at most 4 clips
  are made, whatever the generator draws.
\<close>

theorem create_cuts_count:
  assumes "0 < b" "b \<le> 2 ^ 49" "total_duration < 2 ^ 53"
  shows "choose_num_cuts total_duration (of_int b) =
     Inr (if total_duration \<le> 5 then 1
          else if total_duration \<le> of_int b then 1
          else if total_duration \<le> of_int (3 * b) then 3
          else if total_duration \<le> of_int (5 * b) then 5
          else if total_duration \<le> of_int (10 * b) then 10
          else min 20 \<lfloor>total_duration / of_int b\<rfloor>)
   \<and> map_option fst (create_cuts ops processing_count (\<lambda>cut_id. True) 12 g stored 15) =
       Some (Inr [\<lparr>clip_id = 1, clip_start_time = 0, clip_end_time = 12, clip_duration = 12\<rparr>])
   \<and> choose_num_cuts 100 30 = Inr 5
   \<and> (\<exists>clips. map_option fst (create_cuts ops processing_count media_ok 100 g stored 30) =
                 Some (Inr clips) \<and> length clips \<le> 4)"
  using choose_num_cuts_table [OF assms] plan_12_15 [of ops processing_count g stored]
        plan_100_30 [of ops processing_count g]
        at_most_four_clips [of ops processing_count media_ok g stored]
  by blast

text \<open>A video of 1000 seconds and a target of 30: more than ten times the target, so the
  count is \<open>min(20, 33)\<close>; 200 seconds give 10.\<close>

theorem create_cuts_count_witness:
  "choose_num_cuts 1000 30 = Inr 20 \<and> choose_num_cuts 200 30 = Inr 10"
proof -
  have a: "(0::int) < 30" "(30::int) \<le> 2 ^ 49" "(1000::real) < 2 ^ 53" "(200::real) < 2 ^ 53"
    by simp_all
  have f: "\<lfloor>(1000::real) / 30\<rfloor> = 33"
    by (simp add: floor_eq_iff)
  have "choose_num_cuts 1000 (of_int 30) = Inr 20"
    using create_cuts_count [OF a(1) a(2) a(3), THEN conjunct1] f by simp
  moreover have "choose_num_cuts 200 (of_int 30) = Inr 10"
    using create_cuts_count [OF a(1) a(2) a(4), THEN conjunct1] by simp
  ultimately show ?thesis by simp
qed

end
